theory Spec2Isabelle
  imports Main
begin

section \<open>Navigation generator for an AsciiDoc documentation tree\<close>

text \<open>
  A shallow embedding of \<^verbatim>\<open>generate_nav.py\<close>.  Python strings are lists of code
  points; here a \<^typ>\<open>char\<close> stands for a code point below 256, classified and
  lower-cased as Python does for these code points.  Text that is printed to the
  console is not part of the model.
\<close>

subsection \<open>Python string operations\<close>

text \<open>\<^verbatim>\<open>str.isspace\<close> and the regular expression class \<^verbatim>\<open>\s\<close> agree:
  TAB, LF, VT, FF, CR, the separators 28 to 31, the space, NEL (133) and the
  no-break space (160).\<close>

definition isspace :: "char \<Rightarrow> bool" where
  "isspace c =
     (let n = (of_char c :: nat)
      in (9 \<le> n \<and> n \<le> 13) \<or> (28 \<le> n \<and> n \<le> 32) \<or> n = 133 \<or> n = 160)"

text \<open>The class \<^verbatim>\<open>\w\<close>: alphanumeric code points and the underscore.\<close>

definition is_word_char :: "char \<Rightarrow> bool" where
  "is_word_char c =
     (let n = (of_char c :: nat)
      in (48 \<le> n \<and> n \<le> 57) \<or> (65 \<le> n \<and> n \<le> 90) \<or> n = 95 \<or> (97 \<le> n \<and> n \<le> 122)
         \<or> n = 170 \<or> n = 178 \<or> n = 179 \<or> n = 181 \<or> n = 185 \<or> n = 186
         \<or> (188 \<le> n \<and> n \<le> 190) \<or> (192 \<le> n \<and> n \<le> 214)
         \<or> (216 \<le> n \<and> n \<le> 246) \<or> (248 \<le> n \<and> n \<le> 255))"

definition lower_char :: "char \<Rightarrow> char" where
  "lower_char c =
     (let n = (of_char c :: nat)
      in if (65 \<le> n \<and> n \<le> 90) \<or> (192 \<le> n \<and> n \<le> 214) \<or> (216 \<le> n \<and> n \<le> 222)
         then char_of (n + 32) else c)"

definition lower :: "string \<Rightarrow> string" where
  "lower s = map lower_char s"

definition lstrip :: "string \<Rightarrow> string" where
  "lstrip s = dropWhile isspace s"

definition rstrip :: "string \<Rightarrow> string" where
  "rstrip s = rev (dropWhile isspace (rev s))"

definition strip :: "string \<Rightarrow> string" where
  "strip s = rstrip (lstrip s)"

text \<open>\<^verbatim>\<open>s.strip(chars)\<close> and \<^verbatim>\<open>s.lstrip(chars)\<close> with an explicit character set.\<close>

definition lstrip_chars :: "string \<Rightarrow> string \<Rightarrow> string" where
  "lstrip_chars cs s = dropWhile (\<lambda>c. c \<in> set cs) s"

definition strip_chars :: "string \<Rightarrow> string \<Rightarrow> string" where
  "strip_chars cs s =
     rev (dropWhile (\<lambda>c. c \<in> set cs) (rev (dropWhile (\<lambda>c. c \<in> set cs) s)))"

definition startswith :: "string \<Rightarrow> string \<Rightarrow> bool" where
  "startswith p s = (take (length p) s = p)"

definition endswith :: "string \<Rightarrow> string \<Rightarrow> bool" where
  "endswith p s = (length p \<le> length s \<and> drop (length s - length p) s = p)"

subsection \<open>Anchors derived from titles\<close>

text \<open>\<^verbatim>\<open>re.sub(r"[^\w\s-]", "", s)\<close>: only word characters, white space and
  hyphens are kept.\<close>

definition strip_punctuation :: "string \<Rightarrow> string" where
  "strip_punctuation s = filter (\<lambda>c. is_word_char c \<or> isspace c \<or> c = CHR ''-'') s"

text \<open>\<^verbatim>\<open>re.sub(r"\s+", "-", s)\<close>: every maximal run of white space becomes one
  hyphen.\<close>

function spaces_to_hyphen :: "string \<Rightarrow> string" where
  "spaces_to_hyphen [] = []"
| "spaces_to_hyphen (c # cs) =
     (if isspace c then CHR ''-'' # spaces_to_hyphen (dropWhile isspace cs)
      else c # spaces_to_hyphen cs)"
  by pat_completeness auto
termination
  by (relation "measure length") (auto simp: less_Suc_eq_le length_dropWhile_le)

text \<open>\<^verbatim>\<open>re.sub(r"-{2,}", "-", s)\<close>: every maximal run of two or more hyphens
  becomes one hyphen.\<close>

function collapse_hyphens :: "string \<Rightarrow> string" where
  "collapse_hyphens [] = []"
| "collapse_hyphens [c] = [c]"
| "collapse_hyphens (c # d # cs) =
     (if c = CHR ''-'' \<and> d = CHR ''-''
      then CHR ''-'' # collapse_hyphens (dropWhile (\<lambda>x. x = CHR ''-'') cs)
      else c # collapse_hyphens (d # cs))"
  by pat_completeness auto
termination
  by (relation "measure length") (auto intro!: le_imp_less_Suc le_SucI length_dropWhile_le)

definition make_anchor_from_title :: "string \<Rightarrow> string" where
  "make_anchor_from_title title =
     (let s = lower (strip title);
          s = strip_punctuation s;
          s = spaces_to_hyphen s;
          s = collapse_hyphens s
      in strip_chars ''-'' s)"

text \<open>\<^verbatim>\<open>sep.join(items)\<close>.\<close>

fun join :: "string \<Rightarrow> string list \<Rightarrow> string" where
  "join sep [] = []"
| "join sep [x] = x"
| "join sep (x # y # ys) = x @ sep @ join sep (y # ys)"

text \<open>\<^verbatim>\<open>s.split(sep)\<close> for a separator of one character.\<close>

definition split_on :: "char \<Rightarrow> string \<Rightarrow> string list" where
  "split_on sep s =
     foldr (\<lambda>c acc. if c = sep then [] # acc else (c # hd acc) # tl acc) s [[]]"

text \<open>\<^verbatim>\<open>str.splitlines\<close>: the line boundaries below 256 are LF, VT, FF, CR (with
  CR LF as one boundary), the separators 28 to 30 and NEL.\<close>

definition is_linebreak :: "char \<Rightarrow> bool" where
  "is_linebreak c =
     (let n = (of_char c :: nat) in (10 \<le> n \<and> n \<le> 13) \<or> (28 \<le> n \<and> n \<le> 30) \<or> n = 133)"

function splitlines :: "string \<Rightarrow> string list" where
  "splitlines [] = []"
| "splitlines (c # cs) =
     (let l = takeWhile (\<lambda>x. \<not> is_linebreak x) (c # cs);
          r = dropWhile (\<lambda>x. \<not> is_linebreak x) (c # cs)
      in case r of
           [] \<Rightarrow> [l]
         | b # r' \<Rightarrow>
             l # splitlines (if b = CHR 0x0D \<and> startswith [CHR 0x0A] r' then tl r' else r'))"
  by pat_completeness auto
termination
proof (relation "measure length")
  show "wf (measure length)" by simp
next
  fix c :: char and cs x xa b r'
  assume "xa = dropWhile (\<lambda>x. \<not> is_linebreak x) (c # cs)" and "xa = b # r'"
  then have "length (b # r') \<le> length (c # cs)"
    using length_dropWhile_le[of "\<lambda>x. \<not> is_linebreak x" "c # cs"] by simp
  then have "length r' < length (c # cs)" and "length (tl r') < length (c # cs)"
    by simp_all
  then show "(if b = CHR 0x0D \<and> startswith [CHR 0x0A] r' then tl r' else r', c # cs)
               \<in> measure length"
    by simp
qed

subsection \<open>Paths\<close>

text \<open>
  An absolute path is the list of its components below the root; symbolic links
  are not modelled, so that \<^verbatim>\<open>Path.resolve\<close> and \<^verbatim>\<open>os.path.normpath\<close> only
  cancel \<^verbatim>\<open>..\<close> components.  Parsing a path string drops empty and \<^verbatim>\<open>.\<close>
  components, as \<^verbatim>\<open>pathlib\<close> does.
\<close>

type_synonym path = "string list"

definition path_parts :: "string \<Rightarrow> string list" where
  "path_parts s = filter (\<lambda>p. p \<noteq> [] \<and> p \<noteq> ''.'') (split_on CHR ''/'' s)"

definition is_absolute :: "string \<Rightarrow> bool" where
  "is_absolute s = startswith ''/'' s"

text \<open>\<^verbatim>\<open>base / s\<close>.\<close>

definition joinpath :: "path \<Rightarrow> string \<Rightarrow> path" where
  "joinpath base s = (if is_absolute s then path_parts s else base @ path_parts s)"

definition parent :: "path \<Rightarrow> path" where
  "parent p = butlast p"

definition resolve :: "path \<Rightarrow> path" where
  "resolve p = rev (fold (\<lambda>c acc. if c = ''..'' then tl acc else c # acc) p [])"

text \<open>\<^verbatim>\<open>str(p)\<close> for an absolute path and for a relative one.\<close>

definition path_str :: "path \<Rightarrow> string" where
  "path_str p = ''/'' @ join ''/'' p"

definition rel_path_str :: "string list \<Rightarrow> string" where
  "rel_path_str p = (if p = [] then ''.'' else join ''/'' p)"

text \<open>\<^verbatim>\<open>Path(s).name\<close>: the last component, empty when there is none.\<close>

definition path_name :: "string \<Rightarrow> string" where
  "path_name s = (case rev (path_parts s) of [] \<Rightarrow> [] | n # _ \<Rightarrow> n)"

text \<open>\<^verbatim>\<open>p.relative_to(base)\<close>; \<open>None\<close> stands for the \<^verbatim>\<open>ValueError\<close>.\<close>

definition relative_to :: "path \<Rightarrow> path \<Rightarrow> string list option" where
  "relative_to p base =
     (if take (length base) p = base then Some (drop (length base) p) else None)"

text \<open>\<^verbatim>\<open>d in p.parents\<close>.\<close>

definition in_parents :: "path \<Rightarrow> path \<Rightarrow> bool" where
  "in_parents d p = (length d < length p \<and> take (length d) p = d)"

fun common_prefix :: "'a list \<Rightarrow> 'a list \<Rightarrow> 'a list" where
  "common_prefix (x # xs) (y # ys) = (if x = y then x # common_prefix xs ys else [])"
| "common_prefix xs ys = []"

text \<open>\<^verbatim>\<open>os.path.relpath(p, start)\<close> on absolute paths.\<close>

definition relpath :: "path \<Rightarrow> path \<Rightarrow> string" where
  "relpath p start =
     (let start_list = resolve start;
          path_list = resolve p;
          i = length (common_prefix start_list path_list);
          rel_list = replicate (length start_list - i) ''..'' @ drop i path_list
      in if rel_list = [] then ''.'' else join ''/'' rel_list)"

subsection \<open>Configuration\<close>

text \<open>The working directory \<open>cwd\<close> is a parameter of everything that depends on it.\<close>

definition SRC_DIR :: "path \<Rightarrow> path" where
  "SRC_DIR cwd = joinpath cwd ''src''"

definition MODULE_ROOT :: "path \<Rightarrow> path" where
  "MODULE_ROOT cwd = joinpath (SRC_DIR cwd) ''modules/ROOT''"

definition PAGES_DIR :: "path \<Rightarrow> path" where
  "PAGES_DIR cwd = joinpath (MODULE_ROOT cwd) ''pages''"

definition PARTIALS_DIR :: "path \<Rightarrow> path" where
  "PARTIALS_DIR cwd = joinpath (MODULE_ROOT cwd) ''partials''"

definition DEST_NAV_FILE :: "path \<Rightarrow> path" where
  "DEST_NAV_FILE cwd = joinpath (MODULE_ROOT cwd) ''nav.adoc''"

definition MASTER_FILES :: "string list" where
  "MASTER_FILES =
     [''usersguide/usersguide.adoc'',
      ''installguide/installguide.adoc'',
      ''referenceguide/referenceguide.adoc'']"

definition MAX_NAV_DEPTH :: int where
  "MAX_NAV_DEPTH = 4"

definition ALLOWED_SECTION_LEVELS :: "nat set" where
  "ALLOWED_SECTION_LEVELS = {3}"

definition IGNORE_TITLES :: "string set" where
  "IGNORE_TITLES =
     {''description'', ''options'', ''example'', ''examples'', ''notes'', ''see also''}"

definition ALIAS_MAP :: "(string \<times> (string \<times> string) list) list" where
  "ALIAS_MAP =
     [(''referenceguide.adoc'',
        [(''perfdmf/book.adoc'', ''referenceguide/taudb-alias.adoc''),
         (''newguide/introduction.adoc'', ''referenceguide/installation-alias.adoc'')]),
      (''referenceguide/referenceguide.adoc'',
        [(''perfdmf/book.adoc'', ''referenceguide/taudb-alias.adoc''),
         (''newguide/introduction.adoc'', ''referenceguide/installation-alias.adoc'')])]"

subsection \<open>The file system\<close>

text \<open>
  The files are an association list from resolved paths to their text.  A path that
  exists but cannot be read as text (a directory, say) behaves in every read of the
  program as a file with empty text, and is represented so.  Writing replaces the
  entry of the path; the operating system is taken to accept every write, and
  creating the parent directories of a file adds no entry.
\<close>

type_synonym filesystem = "(path \<times> string) list"

definition read_text :: "filesystem \<Rightarrow> path \<Rightarrow> string option" where
  "read_text fs p = map_of fs (resolve p)"

definition path_exists :: "filesystem \<Rightarrow> path \<Rightarrow> bool" where
  "path_exists fs p = (read_text fs p \<noteq> None)"

definition write_text :: "filesystem \<Rightarrow> path \<Rightarrow> string \<Rightarrow> filesystem" where
  "write_text fs p content =
     (resolve p, content) # filter (\<lambda>e. fst e \<noteq> resolve p) fs"

definition read_text_lines :: "filesystem \<Rightarrow> path \<Rightarrow> string list" where
  "read_text_lines fs p = (case read_text fs p of Some t \<Rightarrow> splitlines t | None \<Rightarrow> [])"

subsection \<open>Includes\<close>

text \<open>
  The pattern \<^verbatim>\<open>include::([^[\]]+)\[\]\<close> tried at the start of \<open>s\<close>: the group is
  the maximal run of characters other than brackets, which must be non-empty and
  followed by \<^verbatim>\<open>[]\<close> (a shorter run is followed by a character that is no bracket).
\<close>

definition include_at :: "string \<Rightarrow> string option" where
  "include_at s =
     (if startswith ''include::'' s then
        (let r = drop 9 s;
             g = takeWhile (\<lambda>c. c \<noteq> CHR ''['' \<and> c \<noteq> CHR '']'') r;
             t = dropWhile (\<lambda>c. c \<noteq> CHR ''['' \<and> c \<noteq> CHR '']'') r
         in if g \<noteq> [] \<and> startswith ''[]'' t then Some g else None)
      else None)"

text \<open>\<^verbatim>\<open>pattern.search(line)\<close>: the leftmost position where the pattern matches.\<close>

fun include_search :: "string \<Rightarrow> string option" where
  "include_search [] = None"
| "include_search (c # cs) =
     (case include_at (c # cs) of Some g \<Rightarrow> Some g | None \<Rightarrow> include_search cs)"

fun include_targets :: "path \<Rightarrow> filesystem \<Rightarrow> path \<Rightarrow> string list \<Rightarrow> path list" where
  "include_targets cwd fs file_path [] = []"
| "include_targets cwd fs file_path (line # lines) =
     (case include_search line of
        None \<Rightarrow> include_targets cwd fs file_path lines
      | Some g \<Rightarrow>
          (let include_rel_path = strip g;
               inc = resolve (joinpath (parent file_path) include_rel_path)
           in if in_parents (PARTIALS_DIR cwd) inc then include_targets cwd fs file_path lines
              else if \<not> path_exists fs inc then include_targets cwd fs file_path lines
              else inc # include_targets cwd fs file_path lines))"

definition extract_include_files :: "path \<Rightarrow> filesystem \<Rightarrow> path \<Rightarrow> path list" where
  "extract_include_files cwd fs file_path =
     include_targets cwd fs file_path (read_text_lines fs file_path)"

subsection \<open>Line classes\<close>

text \<open>Blank lines, comments, attribute lines and include lines are skipped by the
  heading scans.\<close>

definition skippable :: "string \<Rightarrow> bool" where
  "skippable line =
     (line = [] \<or> startswith ''//'' line \<or> startswith '':'' line \<or> startswith ''include::'' line)"

definition is_anchor_line :: "string \<Rightarrow> bool" where
  "is_anchor_line line = (startswith ''[['' line \<and> endswith '']]'' line)"

text \<open>\<^verbatim>\<open>line[2:-2].strip()\<close>.\<close>

definition anchor_of_line :: "string \<Rightarrow> string" where
  "anchor_of_line line = strip (take (length line - 4) (drop 2 line))"

text \<open>
  \<^verbatim>\<open>re.match(r"^(=+)\s+(.+)$", line)\<close> on a stripped line: the first group is the
  maximal run of \<^verbatim>\<open>=\<close>, then comes the maximal run of white space, and the second
  group is the rest, which is non-empty and has no line feed.  The result is the
  length of the first group and the second group.
\<close>

definition heading_match :: "string \<Rightarrow> (nat \<times> string) option" where
  "heading_match line =
     (let eqs = takeWhile (\<lambda>c. c = CHR ''='') line;
          r = dropWhile (\<lambda>c. c = CHR ''='') line;
          ws = takeWhile isspace r;
          text = dropWhile isspace r
      in if eqs \<noteq> [] \<and> ws \<noteq> [] \<and> text \<noteq> [] \<and> CHR 0x0A \<notin> set text
         then Some (length eqs, text) else None)"

subsection \<open>Title and anchor of a file\<close>

text \<open>
  The outer loop of \<^verbatim>\<open>get_title_and_anchor\<close> is \<open>title_scan\<close>, on the lines from
  index \<open>i\<close> on; the inner loop that follows an anchor line is \<open>find_next_heading\<close>.
  Where the inner loop breaks, or runs out of lines, the outer loop goes on at the
  same index.
\<close>

fun title_scan :: "bool \<Rightarrow> string \<Rightarrow> string list \<Rightarrow> string \<times> string"
  and find_next_heading :: "bool \<Rightarrow> string \<Rightarrow> string list \<Rightarrow> string \<times> string"
where
  "title_scan prefer_doc_title anchor [] = (''Untitled'', anchor)"
| "title_scan prefer_doc_title anchor (l # ls) =
     (let line = strip l in
      if skippable line then title_scan prefer_doc_title anchor ls
      else if is_anchor_line line then
        find_next_heading prefer_doc_title (anchor_of_line line) ls
      else if prefer_doc_title then
        (if startswith ''= '' line \<and> \<not> startswith ''== '' line then
           (let title = strip (lstrip_chars ''= '' line)
            in (title, if anchor = [] then make_anchor_from_title title else anchor))
         else title_scan prefer_doc_title anchor ls)
      else
        (case heading_match line of
           Some (level, text) \<Rightarrow>
             if level \<ge> 2 then
               (let title = strip text
                in (title, if anchor = [] then make_anchor_from_title title else anchor))
             else title_scan prefer_doc_title anchor ls
         | None \<Rightarrow> title_scan prefer_doc_title anchor ls))"
| "find_next_heading prefer_doc_title anchor [] = title_scan prefer_doc_title anchor []"
| "find_next_heading prefer_doc_title anchor (l # ls) =
     (let peek = strip l in
      if skippable peek then find_next_heading prefer_doc_title anchor ls
      else if prefer_doc_title \<and> startswith ''= '' peek \<and> \<not> startswith ''== '' peek then
        (strip (lstrip_chars ''= '' peek), anchor)
      else
        (case heading_match peek of
           Some (level, text) \<Rightarrow>
             if prefer_doc_title then
               (if level = 1 then (strip text, anchor)
                else title_scan prefer_doc_title anchor (l # ls))
             else if level \<ge> 2 then
               (let title = strip text
                in (title, if anchor = [] then make_anchor_from_title title else anchor))
             else title_scan prefer_doc_title anchor (l # ls)
         | None \<Rightarrow> title_scan prefer_doc_title anchor (l # ls)))"

definition get_title_and_anchor :: "filesystem \<Rightarrow> path \<Rightarrow> bool \<Rightarrow> string \<times> string" where
  "get_title_and_anchor fs file_path prefer_doc_title =
     (let lines = read_text_lines fs file_path
      in if lines = [] then (''Untitled'', [])
         else title_scan prefer_doc_title [] lines)"

subsection \<open>Section headings of a file\<close>

fun section_scan :: "string option \<Rightarrow> string list \<Rightarrow> (nat \<times> string \<times> string) list" where
  "section_scan last_anchor [] = []"
| "section_scan last_anchor (l # ls) =
     (let line = strip l in
      if is_anchor_line line then section_scan (Some (anchor_of_line line)) ls
      else if skippable line then section_scan last_anchor ls
      else
        (case heading_match line of
           Some (level, text) \<Rightarrow>
             (let title = strip text in
              if title \<noteq> [] \<and> lower title \<notin> IGNORE_TITLES \<and> level \<in> ALLOWED_SECTION_LEVELS
              then
                (let anchor =
                       (case last_anchor of
                          Some a \<Rightarrow> if a \<noteq> [] then a else make_anchor_from_title title
                        | None \<Rightarrow> make_anchor_from_title title)
                 in (level, anchor, title) # section_scan None ls)
              else section_scan None ls)
         | None \<Rightarrow> section_scan None ls))"

definition extract_section_headings ::
  "filesystem \<Rightarrow> path \<Rightarrow> (nat \<times> string \<times> string) list" where
  "extract_section_headings fs file_path = section_scan None (read_text_lines fs file_path)"

subsection \<open>Aggregator pages\<close>

text \<open>\<^verbatim>\<open>re.match(r"^===\s+", s)\<close>.\<close>

definition level3_prefix :: "string \<Rightarrow> bool" where
  "level3_prefix s =
     (startswith ''==='' s \<and> (case drop 3 s of [] \<Rightarrow> False | c # _ \<Rightarrow> isspace c))"

definition is_aggregator_page :: "path \<Rightarrow> filesystem \<Rightarrow> path \<Rightarrow> bool" where
  "is_aggregator_page cwd fs file_path =
     (if extract_include_files cwd fs file_path = [] then False
      else list_all (\<lambda>line. \<not> level3_prefix (strip line)) (read_text_lines fs file_path))"

subsection \<open>Aliases\<close>

text \<open>The loop of \<^verbatim>\<open>resolve_alias\<close> over the keys, on any rule table.\<close>

fun alias_lookup ::
  "(string \<times> (string \<times> string) list) list \<Rightarrow> string list \<Rightarrow> string
     \<Rightarrow> string \<times> string option" where
  "alias_lookup table [] xref_path_str = (xref_path_str, None)"
| "alias_lookup table (key # keys) xref_path_str =
     (case map_of table key of
        Some rules \<Rightarrow>
          (case map_of rules xref_path_str of
             Some target \<Rightarrow> (target, Some target)
           | None \<Rightarrow> alias_lookup table keys xref_path_str)
      | None \<Rightarrow> alias_lookup table keys xref_path_str)"

definition resolve_alias_in ::
  "(string \<times> (string \<times> string) list) list \<Rightarrow> string \<Rightarrow> string \<Rightarrow> string \<times> string option" where
  "resolve_alias_in table master_key xref_path_str =
     (let basename_key = path_name master_key
      in alias_lookup table [master_key, basename_key] xref_path_str)"

definition resolve_alias :: "string \<Rightarrow> string \<Rightarrow> string \<times> string option" where
  "resolve_alias master_key xref_path_str = resolve_alias_in ALIAS_MAP master_key xref_path_str"

definition alias_content :: "string \<Rightarrow> string \<Rightarrow> string" where
  "alias_content target_page_path_str relative_include_path =
     '':page-alias: '' @ target_page_path_str @ [CHR 0x0A] @
     ''include::'' @ relative_include_path @ ''[]'' @ [CHR 0x0A]"

definition create_alias_file :: "path \<Rightarrow> string \<Rightarrow> string \<Rightarrow> filesystem \<Rightarrow> filesystem" where
  "create_alias_file cwd alias_page_path_str target_page_path_str fs =
     (let alias_abs_path = joinpath (PAGES_DIR cwd) alias_page_path_str;
          target_abs_path = joinpath (PAGES_DIR cwd) target_page_path_str;
          relative_include_path = relpath target_abs_path (parent alias_abs_path)
      in write_text fs alias_abs_path (alias_content target_page_path_str relative_include_path))"

subsection \<open>Navigation entries\<close>

definition nav_entry :: "int \<Rightarrow> string \<Rightarrow> string \<Rightarrow> string \<Rightarrow> string" where
  "nav_entry level xref_target title anchor =
     (let indent = replicate (nat (max 1 (min level MAX_NAV_DEPTH))) CHR ''*''
      in if anchor \<noteq> [] then indent @ '' xref:'' @ xref_target @ ''#'' @ anchor @ ''['' @ title @ '']''
         else indent @ '' xref:'' @ xref_target @ ''['' @ title @ '']'')"

definition add_entry :: "string list \<Rightarrow> int \<Rightarrow> string \<Rightarrow> string \<Rightarrow> string \<Rightarrow> string list" where
  "add_entry nav_lines level xref_target title anchor =
     nav_lines @ [nav_entry level xref_target title anchor]"

text \<open>The nesting depth that a line of the navigation file shows: its leading
  asterisks.\<close>

definition entry_depth :: "string \<Rightarrow> nat" where
  "entry_depth line = length (takeWhile (\<lambda>c. c = CHR ''*'') line)"

fun alias_sections ::
  "filesystem \<Rightarrow> string \<Rightarrow> int \<Rightarrow> path list \<Rightarrow> string list \<Rightarrow> string list" where
  "alias_sections fs alias_xref_target current_level [] nav_lines = nav_lines"
| "alias_sections fs alias_xref_target current_level (inc # incs) nav_lines =
     (let (inc_title, inc_anchor) = get_title_and_anchor fs inc False
      in if inc_title = [] \<or> lower inc_title = ''untitled''
         then alias_sections fs alias_xref_target current_level incs nav_lines
         else alias_sections fs alias_xref_target current_level incs
                (add_entry nav_lines (min (current_level + 1) MAX_NAV_DEPTH)
                   alias_xref_target inc_title inc_anchor))"

definition process_aggregator_children_as_alias_sections ::
  "path \<Rightarrow> filesystem \<Rightarrow> path \<Rightarrow> string \<Rightarrow> int \<Rightarrow> string list \<Rightarrow> string list" where
  "process_aggregator_children_as_alias_sections cwd fs aggregator_file alias_xref_target
       current_level nav_lines =
     alias_sections fs alias_xref_target current_level
       (extract_include_files cwd fs aggregator_file) nav_lines"

text \<open>The loop of \<^verbatim>\<open>process_page\<close> over the section headings of the page.\<close>

fun section_entries ::
  "int \<Rightarrow> string \<Rightarrow> string \<Rightarrow> string \<Rightarrow> (nat \<times> string \<times> string) list \<Rightarrow> string list
     \<Rightarrow> string list" where
  "section_entries current_level final_xref_path title anchor [] nav_lines = nav_lines"
| "section_entries current_level final_xref_path title anchor
       ((level, sub_anchor, sub_title) # sections) nav_lines =
     (if sub_anchor = anchor \<or> lower (strip sub_title) = lower (strip title)
      then section_entries current_level final_xref_path title anchor sections nav_lines
      else
        (let sub_nav_level = current_level + (int level - 2)
         in if sub_nav_level \<le> MAX_NAV_DEPTH
            then section_entries current_level final_xref_path title anchor sections
                   (add_entry nav_lines sub_nav_level final_xref_path sub_title sub_anchor)
            else section_entries current_level final_xref_path title anchor sections nav_lines))"

subsection \<open>Pages\<close>

text \<open>
  The state of a run: the lines of the navigation file so far, the visited set and
  the file system.  The field \<open>calls\<close> is a history variable: every call of
  \<^verbatim>\<open>process_page\<close> appends its file and master key to it, and nothing reads it.

  The recursion of \<^verbatim>\<open>process_page\<close> is bounded by fuel, one unit for each level of
  nested calls; \<open>None\<close> is a run that needs more.
\<close>

record nav_state =
  nav_lines :: "string list"
  visited :: "(string \<times> string) set"
  files :: filesystem
  calls :: "(string \<times> string) list"

fun process_page ::
    "nat \<Rightarrow> path \<Rightarrow> path \<Rightarrow> string \<Rightarrow> int \<Rightarrow> nav_state \<Rightarrow> nav_state option"
  and process_includes ::
    "nat \<Rightarrow> path \<Rightarrow> string \<Rightarrow> int \<Rightarrow> path list \<Rightarrow> nav_state \<Rightarrow> nav_state option"
where
  "process_page 0 cwd file_path master_key current_level st = None"
| "process_page (Suc fuel) cwd file_path master_key current_level st =
     (let st = st\<lparr>calls := calls st @ [(path_str file_path, master_key)]\<rparr> in
      case relative_to file_path (PAGES_DIR cwd) of
        None \<Rightarrow> Some st
      | Some xref_path \<Rightarrow>
          (let xref_path_str = rel_path_str xref_path;
               (final_xref_path, alias_created) = resolve_alias master_key xref_path_str;
               fs = (case alias_created of
                       Some a \<Rightarrow> create_alias_file cwd a xref_path_str (files st)
                     | None \<Rightarrow> files st);
               st = st\<lparr>files := fs\<rparr>;
               (title, anchor) = get_title_and_anchor fs file_path False
           in if title = [] \<or> lower title = ''untitled'' then Some st
              else
                (let nav = add_entry (nav_lines st) current_level final_xref_path title anchor
                 in if is_aggregator_page cwd fs file_path \<and> alias_created \<noteq> None
                    then Some (st\<lparr>nav_lines :=
                                 process_aggregator_children_as_alias_sections cwd fs file_path
                                   final_xref_path current_level nav\<rparr>)
                    else
                      (let nav = section_entries current_level final_xref_path title anchor
                                   (extract_section_headings fs file_path) nav;
                           st = st\<lparr>nav_lines := nav\<rparr>
                       in if is_aggregator_page cwd fs file_path
                          then process_includes fuel cwd master_key
                                 (min (current_level + 1) MAX_NAV_DEPTH)
                                 (extract_include_files cwd fs file_path) st
                          else Some st))))"
| "process_includes fuel cwd master_key level [] st = Some st"
| "process_includes fuel cwd master_key level (inc # incs) st =
     (let key = (path_str inc, master_key) in
      if key \<in> visited st then process_includes fuel cwd master_key level incs st
      else
        (case process_page fuel cwd inc master_key level
                (st\<lparr>visited := insert key (visited st)\<rparr>) of
           None \<Rightarrow> None
         | Some st' \<Rightarrow> process_includes fuel cwd master_key level incs st'))"

subsection \<open>The program\<close>

datatype error = ValueError

definition header :: "string list" where
  "header = [''// WARNING: This file is generated. DO NOT EDIT DIRECTLY.'', '''']"

fun master_loop :: "nat \<Rightarrow> path \<Rightarrow> string list \<Rightarrow> nav_state \<Rightarrow> (error + nav_state) option" where
  "master_loop fuel cwd [] st = Some (Inr st)"
| "master_loop fuel cwd (master_file_rel_path # rest) st =
     (let master_path = joinpath (PAGES_DIR cwd) master_file_rel_path in
      if \<not> path_exists (files st) master_path then master_loop fuel cwd rest st
      else
        (let (book_title, book_anchor) = get_title_and_anchor (files st) master_path True in
         case relative_to master_path (PAGES_DIR cwd) of
           None \<Rightarrow> Some (Inl ValueError)
         | Some xref_path \<Rightarrow>
             (let line = (if book_anchor \<noteq> []
                          then ''* xref:'' @ rel_path_str xref_path @ ''#'' @ book_anchor
                                 @ ''['' @ book_title @ '']''
                          else ''* xref:'' @ rel_path_str xref_path @ ''['' @ book_title @ '']'');
                  st = st\<lparr>nav_lines := nav_lines st @ [line]\<rparr>;
                  includes = extract_include_files cwd (files st) master_path;
                  master_key = rel_path_str xref_path
              in case process_includes fuel cwd master_key 2 includes st of
                   None \<Rightarrow> None
                 | Some st \<Rightarrow>
                     master_loop fuel cwd rest
                       (if master_file_rel_path \<noteq> last MASTER_FILES
                        then st\<lparr>nav_lines := nav_lines st @ ['''']\<rparr> else st))))"

definition main :: "nat \<Rightarrow> path \<Rightarrow> filesystem \<Rightarrow> (error + nav_state) option" where
  "main fuel cwd fs =
     (case master_loop fuel cwd MASTER_FILES
             \<lparr>nav_lines = [], visited = {}, files = fs, calls = []\<rparr> of
        None \<Rightarrow> None
      | Some (Inl e) \<Rightarrow> Some (Inl e)
      | Some (Inr st) \<Rightarrow>
          (let final_content = join [CHR 0x0A] (header @ nav_lines st) @ [CHR 0x0A]
           in Some (Inr (st\<lparr>files := write_text (files st) (DEST_NAV_FILE cwd) final_content\<rparr>))))"

subsection \<open>Auxiliary predicates\<close>

text \<open>The shape of a derived anchor: lower-case word characters and single hyphens,
  with no hyphen at either end.\<close>

fun no_double_hyphen :: "string \<Rightarrow> bool" where
  "no_double_hyphen [] = True"
| "no_double_hyphen [c] = True"
| "no_double_hyphen (c # d # cs) =
     (\<not> (c = CHR ''-'' \<and> d = CHR ''-'') \<and> no_double_hyphen (d # cs))"

definition slug_shaped :: "string \<Rightarrow> bool" where
  "slug_shaped s \<longleftrightarrow>
     (\<forall>c\<in>set s. lower_char c = c \<and> (is_word_char c \<or> c = CHR ''-'')) \<and>
     no_double_hyphen s \<and> (s = [] \<or> (hd s \<noteq> CHR ''-'' \<and> last s \<noteq> CHR ''-''))"

text \<open>The rule of a table for a content path under one key.\<close>

definition rule_for ::
  "(string \<times> (string \<times> string) list) list \<Rightarrow> string \<Rightarrow> string \<Rightarrow> string option" where
  "rule_for table key xref_path_str =
     (case map_of table key of Some rules \<Rightarrow> map_of rules xref_path_str | None \<Rightarrow> None)"


text \<open>Lines that are no heading of level two or deeper.\<close>

definition no_title :: "string \<Rightarrow> bool" where
  "no_title s = (case heading_match s of Some (level, text) \<Rightarrow> level < 2 | None \<Rightarrow> True)"

text \<open>The content of the last anchor line of a list of lines, \<open>a\<close> when there is none.\<close>

fun pending_anchor :: "string \<Rightarrow> string list \<Rightarrow> string" where
  "pending_anchor a [] = a"
| "pending_anchor a (l # ls) =
     (if is_anchor_line (strip l) then pending_anchor (anchor_of_line (strip l)) ls
      else pending_anchor a ls)"

text \<open>
  One call of \<^verbatim>\<open>process_page\<close> in three parts: the file system after the alias
  stub of the page (if any) is written, the navigation lines that the page itself
  adds, and the included files that the call goes on to process.
\<close>

definition page_files :: "path \<Rightarrow> string \<Rightarrow> path \<Rightarrow> filesystem \<Rightarrow> filesystem" where
  "page_files cwd master_key file_path fs =
     (case relative_to file_path (PAGES_DIR cwd) of
        None \<Rightarrow> fs
      | Some xref_path \<Rightarrow>
          (case snd (resolve_alias master_key (rel_path_str xref_path)) of
             Some a \<Rightarrow> create_alias_file cwd a (rel_path_str xref_path) fs
           | None \<Rightarrow> fs))"

definition untitled :: "string \<Rightarrow> bool" where
  "untitled title = (title = [] \<or> lower title = ''untitled'')"

definition page_entries :: "path \<Rightarrow> string \<Rightarrow> path \<Rightarrow> int \<Rightarrow> filesystem \<Rightarrow> string list" where
  "page_entries cwd master_key file_path current_level fs =
     (case relative_to file_path (PAGES_DIR cwd) of
        None \<Rightarrow> []
      | Some xref_path \<Rightarrow>
          (let (final_xref_path, alias_created) = resolve_alias master_key (rel_path_str xref_path);
               fs1 = page_files cwd master_key file_path fs;
               (title, anchor) = get_title_and_anchor fs1 file_path False
           in if untitled title then []
              else nav_entry current_level final_xref_path title anchor #
                (if is_aggregator_page cwd fs1 file_path \<and> alias_created \<noteq> None
                 then alias_sections fs1 final_xref_path current_level
                        (extract_include_files cwd fs1 file_path) []
                 else section_entries current_level final_xref_path title anchor
                        (extract_section_headings fs1 file_path) [])))"

definition page_children :: "path \<Rightarrow> string \<Rightarrow> path \<Rightarrow> filesystem \<Rightarrow> path list" where
  "page_children cwd master_key file_path fs =
     (case relative_to file_path (PAGES_DIR cwd) of
        None \<Rightarrow> []
      | Some xref_path \<Rightarrow>
          (let fs1 = page_files cwd master_key file_path fs
           in if untitled (fst (get_title_and_anchor fs1 file_path False)) then []
              else if is_aggregator_page cwd fs1 file_path
                      \<and> snd (resolve_alias master_key (rel_path_str xref_path)) = None
              then extract_include_files cwd fs1 file_path
              else []))"

subsection \<open>An example tree\<close>

text \<open>
  A small documentation tree under the working directory \<^verbatim>\<open>/w\<close>: the reference
  guide includes the shared book \<^verbatim>\<open>perfdmf/book.adoc\<close>, which has an alias rule and
  includes a chapter with a title and a chapter without one, the shared page
  \<^verbatim>\<open>newguide/introduction.adoc\<close>, which has an alias rule and no heading, and a chapter
  that includes itself.
\<close>

definition example_cwd :: path where
  "example_cwd = [''w'']"

definition example_pages :: path where
  "example_pages = [''w'', ''src'', ''modules'', ''ROOT'', ''pages'']"

definition example_files :: filesystem where
  "example_files =
     [(example_pages @ [''referenceguide'', ''referenceguide.adoc''],
       ''[[ref]]\<newline>= Reference Guide\<newline>include::../perfdmf/book.adoc[]\<newline>include::../newguide/introduction.adoc[]\<newline>include::chap.adoc[]\<newline>''),
      (example_pages @ [''perfdmf'', ''book.adoc''],
       ''== TAUdb\<newline>include::a.adoc[]\<newline>include::b.adoc[]\<newline>''),
      (example_pages @ [''perfdmf'', ''a.adoc''],
       ''[[aa]]\<newline>text\<newline>== Chapter A\<newline>=== Sec''),
      (example_pages @ [''perfdmf'', ''b.adoc''], ''just text''),
      (example_pages @ [''newguide'', ''introduction.adoc''], ''no heading here''),
      (example_pages @ [''referenceguide'', ''chap.adoc''],
       ''== Chap\<newline>include::chap.adoc[]\<newline>include::sec.adoc[]''),
      (example_pages @ [''referenceguide'', ''sec.adoc''],
       ''== Sec\<newline>=== One\<newline>=== See Also\<newline>[[x]]\<newline>=== Two\<newline>include::chap.adoc[]'')]"

definition example_state :: nav_state where
  "example_state = \<lparr>nav_lines = [], visited = {}, files = example_files, calls = []\<rparr>"

subsection \<open>Predicates on runs\<close>

text \<open>A line of the navigation file with one to \<open>MAX_NAV_DEPTH\<close> leading asterisks.\<close>

definition entry_ok :: "string \<Rightarrow> bool" where
  "entry_ok l = (1 \<le> entry_depth l \<and> int (entry_depth l) \<le> MAX_NAV_DEPTH)"

text \<open>The paths of the alias stubs that the rule table can ask for.\<close>

definition alias_paths :: "path \<Rightarrow> path list" where
  "alias_paths cwd =
     map (\<lambda>a. resolve (joinpath (PAGES_DIR cwd) a)) (concat (map (\<lambda>e. map snd (snd e)) ALIAS_MAP))"

text \<open>The keys of the visited set that one master can still add, for the files
  \<open>U\<close> that can exist during the run.\<close>

definition remaining :: "path set \<Rightarrow> string \<Rightarrow> (string \<times> string) set \<Rightarrow> nat" where
  "remaining U master_key V = card ((\<lambda>p. (path_str p, master_key)) ` U - V)"

text \<open>The invariant of a run: the files stay within \<open>U\<close>, and the calls of
  \<^verbatim>\<open>process_page\<close> so far are distinct and all in the visited set.\<close>

definition run_inv :: "path set \<Rightarrow> nav_state \<Rightarrow> bool" where
  "run_inv U st =
     (fst ` set (files st) \<subseteq> U \<and> distinct (calls st) \<and> set (calls st) \<subseteq> visited st)"

text \<open>The navigation lines of \<open>st'\<close> are those of \<open>st\<close> followed by entries of
  depth one to \<open>MAX_NAV_DEPTH\<close>.\<close>

definition nav_extends :: "nav_state \<Rightarrow> nav_state \<Rightarrow> bool" where
  "nav_extends st st' = (\<exists>new. nav_lines st' = nav_lines st @ new \<and> list_all entry_ok new)"

text \<open>A tree with a cycle of includes, under the root as working directory: the
  users guide includes chapter \<^verbatim>\<open>a\<close> twice, and the chapter includes itself.\<close>

definition loop_files :: filesystem where
  "loop_files =
     [([''src'', ''modules'', ''ROOT'', ''pages'', ''usersguide'', ''usersguide.adoc''],
       ''= UG\<newline>include::a.adoc[]\<newline>include::a.adoc[]''),
      ([''src'', ''modules'', ''ROOT'', ''pages'', ''usersguide'', ''a.adoc''],
       ''== A\<newline>include::a.adoc[]'')]"

section \<open>Derived anchors\<close>

lemma lower_char_idem: "lower_char (lower_char c) = lower_char c"
  unfolding lower_char_def Let_def by (auto simp: of_char_of)
lemma not_space_hyphen: "\<not> isspace CHR ''-''" by (simp add: isspace_def)
lemma lower_char_hyphen: "lower_char CHR ''-'' = CHR ''-''" by (simp add: lower_char_def)

lemma set_spaces_to_hyphen:
  "c \<in> set (spaces_to_hyphen s) \<Longrightarrow> (c \<in> set s \<and> \<not> isspace c) \<or> c = CHR ''-''"
  by (induction s rule: spaces_to_hyphen.induct) (auto split: if_splits dest: set_dropWhileD)

lemma spaces_to_hyphen_id: "\<forall>c\<in>set s. \<not> isspace c \<Longrightarrow> spaces_to_hyphen s = s"
  by (induction s) auto

lemma collapse_hyphens_Nil: "collapse_hyphens s = [] \<longleftrightarrow> s = []"
  by (induction s rule: collapse_hyphens.induct) auto

lemma hd_collapse_hyphens: "hd (collapse_hyphens s) = hd s"
  by (induction s rule: collapse_hyphens.induct) auto

lemma set_collapse_hyphens: "set (collapse_hyphens s) \<subseteq> set s"
  by (induction s rule: collapse_hyphens.induct) (auto dest: set_dropWhileD)

lemma no_double_hyphen_Cons:
  "no_double_hyphen (c # s) \<longleftrightarrow> (s = [] \<or> (\<not> (c = CHR ''-'' \<and> hd s = CHR ''-'') \<and> no_double_hyphen s))"
  by (cases s) auto

lemma no_double_collapse: "no_double_hyphen (collapse_hyphens s)"
proof (induction s rule: collapse_hyphens.induct)
  case (3 c d cs)
  show ?case
  proof (cases "c = CHR ''-'' \<and> d = CHR ''-''")
    case True
    let ?r = "dropWhile (\<lambda>x. x = CHR ''-'') cs"
    have "?r = [] \<or> hd ?r \<noteq> CHR ''-''"
      using hd_dropWhile[of "\<lambda>x. x = CHR ''-''" cs] by auto
    with True 3 show ?thesis
      by (auto simp: no_double_hyphen_Cons collapse_hyphens_Nil hd_collapse_hyphens)
  next
    case False
    with 3 show ?thesis
      by (auto simp: no_double_hyphen_Cons collapse_hyphens_Nil hd_collapse_hyphens)
  qed
qed simp_all

lemma no_double_append: "no_double_hyphen (xs @ ys) \<Longrightarrow> no_double_hyphen xs \<and> no_double_hyphen ys"
proof (induction xs)
  case Nil then show ?case by simp
next
  case (Cons x xs)
  then show ?case by (cases xs; cases ys) (auto simp: no_double_hyphen_Cons)
qed

lemma collapse_hyphens_id: "no_double_hyphen s \<Longrightarrow> collapse_hyphens s = s"
  by (induction s rule: collapse_hyphens.induct) auto

lemma strip_chars_decomp: "\<exists>a b. s = a @ strip_chars cs s @ b"
proof -
  let ?P = "\<lambda>c. c \<in> set cs"
  let ?s1 = "dropWhile ?P s"
  have "rev ?s1 = takeWhile ?P (rev ?s1) @ dropWhile ?P (rev ?s1)" by simp
  then have "?s1 = rev (dropWhile ?P (rev ?s1)) @ rev (takeWhile ?P (rev ?s1))"
    by (metis rev_append rev_rev_ident)
  moreover have "s = takeWhile ?P s @ ?s1" by simp
  ultimately show ?thesis unfolding strip_chars_def by metis
qed

lemma strip_chars_last: "strip_chars cs s \<noteq> [] \<Longrightarrow> last (strip_chars cs s) \<notin> set cs"
  unfolding strip_chars_def using hd_dropWhile[of "\<lambda>c. c \<in> set cs"] by (simp add: last_rev)

lemma strip_chars_hd: "strip_chars cs s \<noteq> [] \<Longrightarrow> hd (strip_chars cs s) \<notin> set cs"
proof -
  assume ne: "strip_chars cs s \<noteq> []"
  let ?P = "\<lambda>c. c \<in> set cs"
  let ?s1 = "dropWhile ?P s"
  have "rev ?s1 = takeWhile ?P (rev ?s1) @ dropWhile ?P (rev ?s1)" by simp
  then have "?s1 = strip_chars cs s @ rev (takeWhile ?P (rev ?s1))"
    unfolding strip_chars_def by (metis rev_append rev_rev_ident)
  with ne have "hd ?s1 = hd (strip_chars cs s)" and "?s1 \<noteq> []"
    by (metis hd_append2, metis append_is_Nil_conv)
  then show ?thesis using hd_dropWhile[of ?P s] by simp
qed

lemma strip_chars_id:
  assumes "s = [] \<or> (hd s \<notin> set cs \<and> last s \<notin> set cs)"
  shows "strip_chars cs s = s"
proof (cases "s = []")
  case True
  then show ?thesis by (simp add: strip_chars_def)
next
  case False
  with assms have h: "hd s \<notin> set cs" and l: "last s \<notin> set cs" by auto
  have 1: "dropWhile (\<lambda>c. c \<in> set cs) s = s"
    using h by (simp add: dropWhile_eq_self_iff)
  have 2: "dropWhile (\<lambda>c. c \<in> set cs) (rev s) = rev s"
    using l False by (simp add: dropWhile_eq_self_iff hd_rev)
  show ?thesis by (simp add: strip_chars_def 1 2)
qed

lemma strip_id:
  assumes "\<forall>c\<in>set s. \<not> isspace c"
  shows "strip s = s"
proof -
  have 1: "dropWhile isspace s = s" using assms by (intro dropWhile_id) simp
  have 2: "dropWhile isspace (rev s) = rev s" using assms by (intro dropWhile_id) simp
  show ?thesis by (simp add: strip_def lstrip_def rstrip_def 1 2)
qed

lemma word_not_space: "is_word_char c \<Longrightarrow> \<not> isspace c"
  unfolding is_word_char_def isspace_def Let_def by auto

lemma slug_shaped_fixed: "slug_shaped s \<Longrightarrow> make_anchor_from_title s = s"
proof -
  assume a: "slug_shaped s"
  then have ns: "\<forall>c\<in>set s. \<not> isspace c"
    using word_not_space not_space_hyphen unfolding slug_shaped_def by blast
  have 1: "strip s = s" using ns by (rule strip_id)
  have 2: "lower s = s" using a unfolding slug_shaped_def lower_def by (simp add: map_idI)
  have 3: "strip_punctuation s = s" using a unfolding slug_shaped_def strip_punctuation_def by (auto simp: filter_id_conv)
  have 4: "spaces_to_hyphen s = s" using ns by (rule spaces_to_hyphen_id)
  have 5: "collapse_hyphens s = s" using a unfolding slug_shaped_def by (simp add: collapse_hyphens_id)
  have 6: "strip_chars ''-'' s = s" using a unfolding slug_shaped_def by (intro strip_chars_id) auto
  show ?thesis unfolding make_anchor_from_title_def Let_def by (simp add: 1 2 3 4 5 6)
qed

lemma slug_shaped_make_anchor: "slug_shaped (make_anchor_from_title t)"
proof -
  let ?a = "strip_punctuation (lower (strip t))"
  let ?b = "spaces_to_hyphen ?a"
  let ?c = "collapse_hyphens ?b"
  let ?d = "strip_chars ''-'' ?c"
  have ca: "\<And>c. c \<in> set ?a \<Longrightarrow> lower_char c = c \<and> (is_word_char c \<or> isspace c \<or> c = CHR ''-'')"
    unfolding strip_punctuation_def lower_def by (auto simp: lower_char_idem lower_char_hyphen)
  have cb: "\<And>c. c \<in> set ?b \<Longrightarrow> lower_char c = c \<and> (is_word_char c \<or> c = CHR ''-'')"
    using set_spaces_to_hyphen[of _ ?a] ca lower_char_hyphen by blast
  obtain p q where dec: "?c = p @ ?d @ q" using strip_chars_decomp by blast
  then have sub: "set ?d \<subseteq> set ?c" by (metis Un_upper1 Un_upper2 set_append subset_trans)
  have cd: "\<And>c. c \<in> set ?d \<Longrightarrow> lower_char c = c \<and> (is_word_char c \<or> c = CHR ''-'')"
    using sub set_collapse_hyphens[of ?b] cb by blast
  have nd: "no_double_hyphen ?d"
    using no_double_collapse[of ?b] dec no_double_append by metis
  have ends: "?d = [] \<or> (hd ?d \<noteq> CHR ''-'' \<and> last ?d \<noteq> CHR ''-'')"
    using strip_chars_hd[of "''-''" ?c] strip_chars_last[of "''-''" ?c] by auto
  show ?thesis unfolding slug_shaped_def make_anchor_from_title_def Let_def
    using cd nd ends by blast
qed

text \<open>
  Claim C8: deriving an anchor is idempotent: the anchor derived from a derived anchor
  is that anchor again, for every title.
\<close>

theorem make_anchor_idempotent:
  "make_anchor_from_title (make_anchor_from_title s) = make_anchor_from_title s"
  by (rule slug_shaped_fixed[OF slug_shaped_make_anchor])

theorem make_anchor_idempotent_witness:
  "make_anchor_from_title ''  Hello, World -- Foo_bar!  '' = ''hello-world-foo_bar'' \<and>
   make_anchor_from_title ''hello-world-foo_bar'' = ''hello-world-foo_bar''"
  using make_anchor_idempotent[of "''  Hello, World -- Foo_bar!  ''"] by code_simp
section \<open>Aliases\<close>

text \<open>
  Claim C7: alias resolution consults the rule table under the full master key first and
  under the file name of the master key second; the first of the two keys that has a rule
  for the content path gives the target, and with no rule under either key the content
  path is returned unchanged and no alias is reported.
\<close>

theorem resolve_alias_order:
  "resolve_alias_in table master_key x =
     (case rule_for table master_key x of
        Some t \<Rightarrow> (t, Some t)
      | None \<Rightarrow>
          (case rule_for table (path_name master_key) x of
             Some t \<Rightarrow> (t, Some t)
           | None \<Rightarrow> (x, None)))
   \<and> resolve_alias master_key x = resolve_alias_in ALIAS_MAP master_key x"
  by (simp add: resolve_alias_in_def resolve_alias_def rule_for_def split: option.splits)

theorem resolve_alias_order_witness:
  "resolve_alias_in [(''b.adoc'', [(''x'', ''viaName'')]), (''a/b.adoc'', [(''x'', ''viaPath'')])]
       ''a/b.adoc'' ''x'' = (''viaPath'', Some ''viaPath'')
   \<and> resolve_alias_in [(''b.adoc'', [(''x'', ''viaName'')]), (''a/b.adoc'', [(''y'', ''viaPath'')])]
       ''a/b.adoc'' ''x'' = (''viaName'', Some ''viaName'')
   \<and> resolve_alias_in [(''b.adoc'', [(''x'', ''viaName'')])] ''a/c.adoc'' ''x'' = (''x'', None)
   \<and> resolve_alias ''referenceguide/referenceguide.adoc'' ''perfdmf/book.adoc''
       = (''referenceguide/taudb-alias.adoc'', Some ''referenceguide/taudb-alias.adoc'')"
  using resolve_alias_order[of "[(''b.adoc'', [(''x'', ''viaName'')]), (''a/b.adoc'', [(''x'', ''viaPath'')])]" "''a/b.adoc''" "''x''"]
  by code_simp

lemma fold_no_dotdot:
  "''..'' \<notin> set s \<Longrightarrow> fold (\<lambda>c acc. if c = ''..'' then tl acc else c # acc) s acc = rev s @ acc"
  by (induction s arbitrary: acc) auto

lemma resolve_append: "''..'' \<notin> set s \<Longrightarrow> resolve (p @ s) = resolve p @ s"
  by (simp add: resolve_def fold_no_dotdot)

lemma common_prefix_append: "common_prefix (r @ a) (r @ b) = r @ common_prefix a b"
  by (induction r) auto

lemma read_write_text: "read_text (write_text fs p c) p = Some c"
  by (simp add: read_text_def write_text_def)

lemma write_text_twice: "write_text (write_text fs p c') p c = write_text fs p c"
  by (simp add: write_text_def)

lemma relpath_sibling:
  assumes "''..'' \<notin> set a" "''..'' \<notin> set b"
  shows "relpath (base @ a) (base @ b) =
     (let i = length (common_prefix b a);
          rel_list = replicate (length b - i) ''..'' @ drop i a
      in if rel_list = [] then ''.'' else join ''/'' rel_list)"
  using assms by (simp add: relpath_def resolve_append common_prefix_append Let_def)

lemma pages_dir_eq: "PAGES_DIR cwd = cwd @ [''src'', ''modules'', ''ROOT'', ''pages'']"
  by (simp add: PAGES_DIR_def MODULE_ROOT_def SRC_DIR_def joinpath_def is_absolute_def startswith_def path_parts_def split_on_def)

lemma alias_rules:
  assumes "(key, rules) \<in> set ALIAS_MAP" and "(x, a) \<in> set rules"
  shows "(x = ''perfdmf/book.adoc'' \<and> a = ''referenceguide/taudb-alias.adoc'') \<or>
         (x = ''newguide/introduction.adoc'' \<and> a = ''referenceguide/installation-alias.adoc'')"
  using assms unfolding ALIAS_MAP_def by auto

lemma parts1: "path_parts ''referenceguide/taudb-alias.adoc'' = [''referenceguide'', ''taudb-alias.adoc'']"
  by code_simp
lemma parts2: "path_parts ''referenceguide/installation-alias.adoc'' = [''referenceguide'', ''installation-alias.adoc'']"
  by code_simp
lemma parts3: "path_parts ''perfdmf/book.adoc'' = [''perfdmf'', ''book.adoc'']"
  by code_simp
lemma parts4: "path_parts ''newguide/introduction.adoc'' = [''newguide'', ''introduction.adoc'']"
  by code_simp
lemma abs1: "\<not> is_absolute ''referenceguide/taudb-alias.adoc''" "\<not> is_absolute ''referenceguide/installation-alias.adoc''"
  "\<not> is_absolute ''perfdmf/book.adoc''" "\<not> is_absolute ''newguide/introduction.adoc''"
  by (simp_all add: is_absolute_def startswith_def)

lemma join_pages_alias:
  "joinpath base ''referenceguide/taudb-alias.adoc'' = base @ [''referenceguide'', ''taudb-alias.adoc'']"
  "joinpath base ''referenceguide/installation-alias.adoc'' = base @ [''referenceguide'', ''installation-alias.adoc'']"
  "joinpath base ''perfdmf/book.adoc'' = base @ [''perfdmf'', ''book.adoc'']"
  "joinpath base ''newguide/introduction.adoc'' = base @ [''newguide'', ''introduction.adoc'']"
  unfolding joinpath_def by (simp_all only: abs1 parts1 parts2 parts3 parts4 if_False)

lemma relpath_up_one:
  assumes "''..'' \<notin> set [d, f]" "''..'' \<noteq> e" "e \<noteq> d"
  shows "relpath (base @ [d, f]) (base @ [e]) = ''../'' @ d @ ''/'' @ f"
proof -
  have "relpath (base @ [d, f]) (base @ [e]) =
     (let i = length (common_prefix [e] [d, f]);
          rel_list = replicate (length [e] - i) ''..'' @ drop i [d, f]
      in if rel_list = [] then ''.'' else join ''/'' rel_list)"
    using assms by (intro relpath_sibling) auto
  also have "\<dots> = ''../'' @ d @ ''/'' @ f"
    using assms by simp
  finally show ?thesis .
qed

lemma alias_relpath:
  assumes "(key, rules) \<in> set ALIAS_MAP" and "(x, a) \<in> set rules"
  shows "relpath (joinpath (PAGES_DIR cwd) x) (parent (joinpath (PAGES_DIR cwd) a)) = ''../'' @ x"
proof -
  from alias_rules[OF assms] show ?thesis
  proof
    assume h: "x = ''perfdmf/book.adoc'' \<and> a = ''referenceguide/taudb-alias.adoc''"
    have "relpath (PAGES_DIR cwd @ [''perfdmf'', ''book.adoc'']) (PAGES_DIR cwd @ [''referenceguide''])
            = ''../'' @ ''perfdmf'' @ ''/'' @ ''book.adoc''"
      by (rule relpath_up_one) simp_all
    then show ?thesis using h by (simp add: join_pages_alias parent_def butlast_append)
  next
    assume h: "x = ''newguide/introduction.adoc'' \<and> a = ''referenceguide/installation-alias.adoc''"
    have "relpath (PAGES_DIR cwd @ [''newguide'', ''introduction.adoc'']) (PAGES_DIR cwd @ [''referenceguide''])
            = ''../'' @ ''newguide'' @ ''/'' @ ''introduction.adoc''"
      by (rule relpath_up_one) simp_all
    then show ?thesis using h by (simp add: join_pages_alias parent_def butlast_append)
  qed
qed

lemma create_alias_file_read:
  "read_text (create_alias_file cwd a x fs) (joinpath (PAGES_DIR cwd) a) =
     Some (alias_content x (relpath (joinpath (PAGES_DIR cwd) x) (parent (joinpath (PAGES_DIR cwd) a))))"
  by (simp add: create_alias_file_def Let_def read_write_text)

lemma create_alias_file_twice:
  "create_alias_file cwd a x (create_alias_file cwd a x fs) = create_alias_file cwd a x fs"
  by (simp add: create_alias_file_def Let_def write_text_twice)

lemma stub_lines:
  "splitlines (alias_content ''perfdmf/book.adoc'' (''../'' @ ''perfdmf/book.adoc'')) =
     ['':page-alias: '' @ ''perfdmf/book.adoc'', ''include::../'' @ ''perfdmf/book.adoc'' @ ''[]'']"
  "splitlines (alias_content ''newguide/introduction.adoc'' (''../'' @ ''newguide/introduction.adoc'')) =
     ['':page-alias: '' @ ''newguide/introduction.adoc'', ''include::../'' @ ''newguide/introduction.adoc'' @ ''[]'']"
  by code_simp+

lemma stub_target:
  "resolve (joinpath (parent (joinpath base ''referenceguide/taudb-alias.adoc'')) (''../'' @ ''perfdmf/book.adoc''))
     = resolve (joinpath base ''perfdmf/book.adoc'')"
  "resolve (joinpath (parent (joinpath base ''referenceguide/installation-alias.adoc'')) (''../'' @ ''newguide/introduction.adoc''))
     = resolve (joinpath base ''newguide/introduction.adoc'')"
proof -
  have p1: "path_parts (''../'' @ ''perfdmf/book.adoc'') = [''..'', ''perfdmf'', ''book.adoc'']"
    by code_simp
  have p2: "path_parts (''../'' @ ''newguide/introduction.adoc'') = [''..'', ''newguide'', ''introduction.adoc'']"
    by code_simp
  have a1: "\<not> is_absolute (''../'' @ ''perfdmf/book.adoc'')" "\<not> is_absolute (''../'' @ ''newguide/introduction.adoc'')"
    by (simp_all add: is_absolute_def startswith_def)
  show "resolve (joinpath (parent (joinpath base ''referenceguide/taudb-alias.adoc'')) (''../'' @ ''perfdmf/book.adoc''))
     = resolve (joinpath base ''perfdmf/book.adoc'')"
    unfolding join_pages_alias parent_def butlast_append
    by (simp add: joinpath_def a1 p1 parts3 abs1 resolve_def del: append.simps)
  show "resolve (joinpath (parent (joinpath base ''referenceguide/installation-alias.adoc'')) (''../'' @ ''newguide/introduction.adoc''))
     = resolve (joinpath base ''newguide/introduction.adoc'')"
    unfolding join_pages_alias parent_def butlast_append
    by (simp add: joinpath_def a1 p2 parts4 abs1 resolve_def del: append.simps)
qed

text \<open>
  Claim C2: for every rule of the alias table, the stub written by
  \<^verbatim>\<open>create_alias_file\<close> holds exactly two lines, the page-alias line naming the
  content path and the include of the content path relative to the directory of the
  stub (which leads back to the content file); whatever the file held before is
  replaced, and writing the stub a second time changes nothing.
\<close>

theorem alias_stub_content:
  assumes "(key, rules) \<in> set ALIAS_MAP" and "(x, a) \<in> set rules"
  shows "read_text (create_alias_file cwd a x fs) (joinpath (PAGES_DIR cwd) a)
           = Some ('':page-alias: '' @ x @ [CHR 0x0A] @ ''include::'' @ (''../'' @ x) @ ''[]'' @ [CHR 0x0A])
       \<and> read_text_lines (create_alias_file cwd a x fs) (joinpath (PAGES_DIR cwd) a)
           = ['':page-alias: '' @ x, ''include::../'' @ x @ ''[]'']
       \<and> relpath (joinpath (PAGES_DIR cwd) x) (parent (joinpath (PAGES_DIR cwd) a)) = ''../'' @ x
       \<and> resolve (joinpath (parent (joinpath (PAGES_DIR cwd) a)) (''../'' @ x))
           = resolve (joinpath (PAGES_DIR cwd) x)
       \<and> create_alias_file cwd a x (create_alias_file cwd a x fs) = create_alias_file cwd a x fs"
proof -
  have rel: "relpath (joinpath (PAGES_DIR cwd) x) (parent (joinpath (PAGES_DIR cwd) a)) = ''../'' @ x"
    using assms by (rule alias_relpath)
  have rd: "read_text (create_alias_file cwd a x fs) (joinpath (PAGES_DIR cwd) a)
             = Some (alias_content x (''../'' @ x))"
    using create_alias_file_read[of cwd a x fs] rel by simp
  have c1: "read_text (create_alias_file cwd a x fs) (joinpath (PAGES_DIR cwd) a)
           = Some ('':page-alias: '' @ x @ [CHR 0x0A] @ ''include::'' @ (''../'' @ x) @ ''[]'' @ [CHR 0x0A])"
    using rd unfolding alias_content_def .
  have sl: "splitlines (alias_content x (''../'' @ x)) = ['':page-alias: '' @ x, ''include::../'' @ x @ ''[]'']"
    using alias_rules[OF assms] stub_lines by auto
  have c2: "read_text_lines (create_alias_file cwd a x fs) (joinpath (PAGES_DIR cwd) a)
           = ['':page-alias: '' @ x, ''include::../'' @ x @ ''[]'']"
    unfolding read_text_lines_def rd using sl by simp
  have c4: "resolve (joinpath (parent (joinpath (PAGES_DIR cwd) a)) (''../'' @ x))
           = resolve (joinpath (PAGES_DIR cwd) x)"
    using alias_rules[OF assms] stub_target[of "PAGES_DIR cwd"] by auto
  show ?thesis using c1 c2 rel c4 create_alias_file_twice by blast
qed

theorem alias_stub_content_witness:
  "(''referenceguide.adoc'',
      [(''perfdmf/book.adoc'', ''referenceguide/taudb-alias.adoc''),
       (''newguide/introduction.adoc'', ''referenceguide/installation-alias.adoc'')]) \<in> set ALIAS_MAP
   \<and> (''perfdmf/book.adoc'', ''referenceguide/taudb-alias.adoc'')
       \<in> set [(''perfdmf/book.adoc'', ''referenceguide/taudb-alias.adoc''),
              (''newguide/introduction.adoc'', ''referenceguide/installation-alias.adoc'')]
   \<and> read_text_lines
        (create_alias_file [''w''] ''referenceguide/taudb-alias.adoc'' ''perfdmf/book.adoc''
           [([''w'', ''src'', ''modules'', ''ROOT'', ''pages'', ''referenceguide'', ''taudb-alias.adoc''], ''stale'')])
        (joinpath (PAGES_DIR [''w'']) ''referenceguide/taudb-alias.adoc'')
       = ['':page-alias: perfdmf/book.adoc'', ''include::../perfdmf/book.adoc[]'']"
proof -
  have m: "(''referenceguide.adoc'',
      [(''perfdmf/book.adoc'', ''referenceguide/taudb-alias.adoc''),
       (''newguide/introduction.adoc'', ''referenceguide/installation-alias.adoc'')]) \<in> set ALIAS_MAP"
    by (simp add: ALIAS_MAP_def)
  have r: "(''perfdmf/book.adoc'', ''referenceguide/taudb-alias.adoc'')
       \<in> set [(''perfdmf/book.adoc'', ''referenceguide/taudb-alias.adoc''),
              (''newguide/introduction.adoc'', ''referenceguide/installation-alias.adoc'')]"
    by simp
  show ?thesis using m r alias_stub_content[OF m r, of "[''w'']"] by simp
qed

section \<open>Titles and anchors\<close>


lemma anchor_line_not_skippable: "is_anchor_line s \<Longrightarrow> \<not> skippable s"
  by (cases s) (auto simp: skippable_def is_anchor_line_def startswith_def)



subsection \<open>Page mode\<close>

lemma page_scan_skip:
  "skippable (strip l) \<Longrightarrow> title_scan d a (l # ls) = title_scan d a ls"
  "skippable (strip l) \<Longrightarrow> find_next_heading d a (l # ls) = find_next_heading d a ls"
  by (simp_all add: Let_def)

lemma title_scan_anchor:
  "is_anchor_line (strip l) \<Longrightarrow>
     title_scan d a (l # ls) = find_next_heading d (anchor_of_line (strip l)) ls"
  by (simp add: Let_def anchor_line_not_skippable)

lemma page_scan_plain:
  assumes "\<not> skippable (strip l)" "\<not> is_anchor_line (strip l)" "no_title (strip l)"
  shows "title_scan False a (l # ls) = title_scan False a ls"
  using assms by (auto simp: Let_def no_title_def split: option.splits)

lemma page_next_falls_back:
  assumes "\<not> skippable (strip l)" "no_title (strip l)"
  shows "find_next_heading False a (l # ls) = title_scan False a (l # ls)"
  using assms by (auto simp: Let_def no_title_def split: option.splits simp del: title_scan.simps)



text \<open>Without any title, both loops end with the sentinel and the last anchor seen.\<close>

lemma page_scan_untitled:
  assumes "\<forall>x\<in>set ls. no_title (strip x)"
  shows "title_scan False a ls = (''Untitled'', pending_anchor a ls)
       \<and> find_next_heading False a ls = (''Untitled'', pending_anchor a ls)"
  using assms
proof (induction ls arbitrary: a)
  case Nil
  then show ?case by simp
next
  case (Cons x ls)
  then have nt: "no_title (strip x)" by simp
  have ih: "\<And>b. title_scan False b ls = (''Untitled'', pending_anchor b ls)"
           "\<And>b. find_next_heading False b ls = (''Untitled'', pending_anchor b ls)"
    using Cons by simp_all
  have ts: "title_scan False a (x # ls) = (''Untitled'', pending_anchor a (x # ls))"
  proof (cases "skippable (strip x)")
    case True
    then have "\<not> is_anchor_line (strip x)" using anchor_line_not_skippable by blast
    then show ?thesis using True ih by (simp add: page_scan_skip del: title_scan.simps)
  next
    case False
    show ?thesis
    proof (cases "is_anchor_line (strip x)")
      case True
      then show ?thesis using ih by (simp add: title_scan_anchor del: title_scan.simps)
    next
      case na: False
      then show ?thesis using False nt ih by (simp add: page_scan_plain del: title_scan.simps)
    qed
  qed
  have "find_next_heading False a (x # ls) = (''Untitled'', pending_anchor a (x # ls))"
  proof (cases "skippable (strip x)")
    case True
    then have "\<not> is_anchor_line (strip x)" using anchor_line_not_skippable by blast
    then show ?thesis using True ih
      by (simp add: page_scan_skip del: title_scan.simps find_next_heading.simps)
  next
    case False
    then show ?thesis using nt ts
      by (simp add: page_next_falls_back del: title_scan.simps find_next_heading.simps)
  qed
  with ts show ?case by simp
qed


subsection \<open>Document mode\<close>










section \<open>Pages\<close>

lemma alias_sections_append:
  "alias_sections fs t lvl incs nav = nav @ alias_sections fs t lvl incs []"
proof (induction incs arbitrary: nav)
  case Nil
  then show ?case by simp
next
  case (Cons inc incs)
  obtain x1 x2 where g: "get_title_and_anchor fs inc False = (x1, x2)"
    by (cases "get_title_and_anchor fs inc False") auto
  show ?case
    using Cons[of nav]
          Cons[of "add_entry nav (min (lvl + 1) MAX_NAV_DEPTH) t x1 x2"]
          Cons[of "add_entry [] (min (lvl + 1) MAX_NAV_DEPTH) t x1 x2"]
    by (simp add: add_entry_def g)
qed

lemma section_entries_append:
  "section_entries lvl t title anchor secs nav = nav @ section_entries lvl t title anchor secs []"
proof (induction secs arbitrary: nav)
  case Nil
  then show ?case by simp
next
  case (Cons s secs)
  obtain l a ti where s: "s = (l, a, ti)" by (cases s) auto
  show ?case
    using Cons[of nav] Cons[of "add_entry nav (lvl + (int l - 2)) t ti a"]
          Cons[of "add_entry [] (lvl + (int l - 2)) t ti a"]
    by (simp add: s add_entry_def Let_def)
qed

lemma process_page_unfold:
  "process_page (Suc n) cwd p mk lvl st =
     process_includes n cwd mk (min (lvl + 1) MAX_NAV_DEPTH) (page_children cwd mk p (files st))
       (st\<lparr>calls := calls st @ [(path_str p, mk)],
           files := page_files cwd mk p (files st),
           nav_lines := nav_lines st @ page_entries cwd mk p lvl (files st)\<rparr>)"
proof (cases "relative_to p (PAGES_DIR cwd)")
  case None
  then show ?thesis by (simp add: page_children_def page_files_def page_entries_def)
next
  case (Some x)
  obtain t ao where ra: "resolve_alias mk (rel_path_str x) = (t, ao)"
    by (cases "resolve_alias mk (rel_path_str x)") auto
  show ?thesis
  proof (cases ao)
    case None
    obtain title anchor where ta: "get_title_and_anchor (files st) p False = (title, anchor)"
      by (cases "get_title_and_anchor (files st) p False") auto
    show ?thesis using Some ra None ta
      by (simp add: page_children_def page_entries_def page_files_def untitled_def Let_def
            add_entry_def section_entries_append[of _ _ _ _ _ "_ @ _"])
  next
    case (Some a)
    obtain title anchor where ta:
      "get_title_and_anchor (create_alias_file cwd a (rel_path_str x) (files st)) p False
         = (title, anchor)"
      by (cases "get_title_and_anchor (create_alias_file cwd a (rel_path_str x) (files st)) p False") auto
    show ?thesis using \<open>relative_to p (PAGES_DIR cwd) = Some x\<close> ra Some ta
      by (simp add: page_children_def page_entries_def page_files_def untitled_def Let_def
            add_entry_def process_aggregator_children_as_alias_sections_def
            alias_sections_append[of _ _ _ _ "_ @ _"]
            section_entries_append[of _ _ _ _ _ "_ @ _"])
  qed
qed

lemma pending_anchor_none: "\<forall>l\<in>set ls. \<not> is_anchor_line (strip l) \<Longrightarrow> pending_anchor a ls = a"
  by (induction ls) simp_all

lemma untitled_sentinel: "untitled ''Untitled''"
  unfolding untitled_def by code_simp

lemma page_untitled:
  assumes "untitled (fst (get_title_and_anchor (page_files cwd mk p fs0) p False))"
  shows "page_entries cwd mk p lvl fs0 = []" and "page_children cwd mk p fs0 = []"
  using assms
  by (auto simp: page_entries_def page_children_def Let_def split: option.splits prod.splits)

lemma process_page_untitled:
  assumes "untitled (fst (get_title_and_anchor (page_files cwd mk p (files st)) p False))"
  shows "process_page (Suc n) cwd p mk lvl st =
           Some (st\<lparr>calls := calls st @ [(path_str p, mk)],
                    files := page_files cwd mk p (files st)\<rparr>)"
  unfolding process_page_unfold page_untitled[OF assms] by simp

text \<open>
  Claim C3, as amended: for a file with no heading line, page mode returns the title
  \<^verbatim>\<open>Untitled\<close>, together with the content of the last anchor line of the file, which is
  the empty anchor when the file has no anchor line; \<^verbatim>\<open>process_page\<close> then skips the
  page: it adds no navigation line, leaves the visited set as it is and calls itself
  for no other file.  The claim as stated, that the anchor is always empty, fails on a
  file that holds an anchor line and no heading.
\<close>

theorem untitled_page_skipped:
  assumes "\<forall>l\<in>set (read_text_lines fs p). heading_match (strip l) = None"
  shows "get_title_and_anchor fs p False = (''Untitled'', pending_anchor [] (read_text_lines fs p))
       \<and> ((\<forall>l\<in>set (read_text_lines fs p). \<not> is_anchor_line (strip l)) \<longrightarrow>
            get_title_and_anchor fs p False = (''Untitled'', []))
       \<and> (page_files cwd mk p (files st) = fs \<longrightarrow>
            process_page (Suc n) cwd p mk lvl st =
              Some (st\<lparr>calls := calls st @ [(path_str p, mk)], files := fs\<rparr>))"
proof -
  have nt: "\<forall>l\<in>set (read_text_lines fs p). no_title (strip l)"
    using assms by (simp add: no_title_def)
  have g: "get_title_and_anchor fs p False = (''Untitled'', pending_anchor [] (read_text_lines fs p))"
  proof (cases "read_text_lines fs p = []")
    case True
    then show ?thesis by (simp add: get_title_and_anchor_def)
  next
    case False
    then show ?thesis using page_scan_untitled[OF nt, of "[]"]
      by (simp add: get_title_and_anchor_def Let_def del: title_scan.simps)
  qed
  have u: "untitled (fst (get_title_and_anchor fs p False))"
    using g untitled_sentinel by simp
  have s: "page_files cwd mk p (files st) = fs \<longrightarrow>
            process_page (Suc n) cwd p mk lvl st =
              Some (st\<lparr>calls := calls st @ [(path_str p, mk)], files := fs\<rparr>)"
    using u process_page_untitled[of cwd mk p st n lvl] by auto
  show ?thesis using g s pending_anchor_none[of "read_text_lines fs p" "[]"] by auto
qed

lemma page_files_alias:
  assumes "relative_to p (PAGES_DIR cwd) = Some x" and "resolve_alias mk (rel_path_str x) = (t, Some a)"
  shows "page_files cwd mk p fs = create_alias_file cwd a (rel_path_str x) fs"
  using assms by (simp add: page_files_def)

text \<open>
  Claim C10: the alias of a page is resolved and its stub is written before the title
  of the page is read; so for a page with an alias rule whose title is empty or
  \<^verbatim>\<open>untitled\<close> (in any case of letters), \<^verbatim>\<open>process_page\<close> returns with the stub
  written to the file system, although it adds no navigation line.
\<close>

theorem alias_written_before_skip:
  assumes "relative_to p (PAGES_DIR cwd) = Some x"
    and "resolve_alias mk (rel_path_str x) = (t, Some a)"
    and "get_title_and_anchor (create_alias_file cwd a (rel_path_str x) (files st)) p False
           = (title, anchor)"
    and "title = [] \<or> lower title = ''untitled''"
  shows "process_page (Suc n) cwd p mk lvl st =
           Some (st\<lparr>calls := calls st @ [(path_str p, mk)],
                    files := create_alias_file cwd a (rel_path_str x) (files st)\<rparr>)
       \<and> read_text (create_alias_file cwd a (rel_path_str x) (files st))
             (joinpath (PAGES_DIR cwd) a)
           = Some (alias_content (rel_path_str x)
                     (relpath (joinpath (PAGES_DIR cwd) (rel_path_str x))
                        (parent (joinpath (PAGES_DIR cwd) a))))"
proof -
  have pf: "page_files cwd mk p (files st) = create_alias_file cwd a (rel_path_str x) (files st)"
    using assms(1,2) by (rule page_files_alias)
  have "untitled (fst (get_title_and_anchor (page_files cwd mk p (files st)) p False))"
    using assms(3,4) pf by (simp add: untitled_def)
  from process_page_untitled[OF this, of n lvl] pf create_alias_file_read[of cwd a "rel_path_str x" "files st"]
  show ?thesis by simp
qed

theorem untitled_page_skipped_counterexample:
  "read_text_lines [([''p.adoc''], ''[[intro]]\<newline>text'')] [''p.adoc''] = [''[[intro]]'', ''text'']
   \<and> heading_match (strip ''[[intro]]'') = None \<and> heading_match (strip ''text'') = None
   \<and> get_title_and_anchor [([''p.adoc''], ''[[intro]]\<newline>text'')] [''p.adoc''] False
        = (''Untitled'', ''intro'')"
  by code_simp

theorem untitled_page_skipped_witness:
  "read_text_lines example_files (example_pages @ [''perfdmf'', ''b.adoc'']) = [''just text'']
   \<and> heading_match (strip ''just text'') = None
   \<and> \<not> is_anchor_line (strip ''just text'')
   \<and> page_files example_cwd ''usersguide/usersguide.adoc'' (example_pages @ [''perfdmf'', ''b.adoc''])
        (files example_state) = example_files
   \<and> get_title_and_anchor example_files (example_pages @ [''perfdmf'', ''b.adoc'']) False
        = (''Untitled'', [])
   \<and> process_page (Suc 0) example_cwd (example_pages @ [''perfdmf'', ''b.adoc''])
        ''usersguide/usersguide.adoc'' 3 example_state
        = Some (example_state\<lparr>calls := calls example_state @
                   [(path_str (example_pages @ [''perfdmf'', ''b.adoc'']), ''usersguide/usersguide.adoc'')],
                 files := example_files\<rparr>)"
proof -
  let ?p = "example_pages @ [''perfdmf'', ''b.adoc'']"
  have l: "read_text_lines example_files ?p = [''just text'']" by code_simp
  have h: "heading_match (strip ''just text'') = None" by code_simp
  have n: "\<not> is_anchor_line (strip ''just text'')" by code_simp
  have 1: "\<forall>l\<in>set (read_text_lines example_files ?p). heading_match (strip l) = None"
    using l h by simp
  have 2: "\<forall>l\<in>set (read_text_lines example_files ?p). \<not> is_anchor_line (strip l)"
    using l n by simp
  have r: "relative_to ?p (PAGES_DIR example_cwd) = Some [''perfdmf'', ''b.adoc'']" by code_simp
  have a: "resolve_alias ''usersguide/usersguide.adoc'' (rel_path_str [''perfdmf'', ''b.adoc''])
             = (''perfdmf/b.adoc'', None)" by code_simp
  have 3: "page_files example_cwd ''usersguide/usersguide.adoc'' ?p (files example_state) = example_files"
    by (simp add: page_files_def r a example_state_def)
  from untitled_page_skipped[OF 1, of example_cwd "''usersguide/usersguide.adoc''" example_state 0 3] 2 3
  have "get_title_and_anchor example_files ?p False = (''Untitled'', [])"
    and "process_page (Suc 0) example_cwd ?p ''usersguide/usersguide.adoc'' 3 example_state
        = Some (example_state\<lparr>calls := calls example_state @
                   [(path_str ?p, ''usersguide/usersguide.adoc'')],
                 files := example_files\<rparr>)"
    by blast+
  with l h n 3 show ?thesis by blast
qed

theorem alias_written_before_skip_witness:
  "relative_to (example_pages @ [''newguide'', ''introduction.adoc'']) (PAGES_DIR example_cwd)
     = Some [''newguide'', ''introduction.adoc'']
   \<and> resolve_alias ''referenceguide/referenceguide.adoc'' (rel_path_str [''newguide'', ''introduction.adoc''])
       = (''referenceguide/installation-alias.adoc'', Some ''referenceguide/installation-alias.adoc'')
   \<and> get_title_and_anchor
        (create_alias_file example_cwd ''referenceguide/installation-alias.adoc''
           (rel_path_str [''newguide'', ''introduction.adoc'']) (files example_state))
        (example_pages @ [''newguide'', ''introduction.adoc'']) False = (''Untitled'', [])
   \<and> lower ''Untitled'' = ''untitled''
   \<and> process_page (Suc 0) example_cwd (example_pages @ [''newguide'', ''introduction.adoc''])
        ''referenceguide/referenceguide.adoc'' 2 example_state
       = Some (example_state\<lparr>calls := calls example_state @
                   [(path_str (example_pages @ [''newguide'', ''introduction.adoc'']),
                     ''referenceguide/referenceguide.adoc'')],
                 files := create_alias_file example_cwd ''referenceguide/installation-alias.adoc''
                            (rel_path_str [''newguide'', ''introduction.adoc'']) (files example_state)\<rparr>)
   \<and> read_text
        (create_alias_file example_cwd ''referenceguide/installation-alias.adoc''
           (rel_path_str [''newguide'', ''introduction.adoc'']) (files example_state))
        (joinpath (PAGES_DIR example_cwd) ''referenceguide/installation-alias.adoc'')
       = Some '':page-alias: newguide/introduction.adoc\<newline>include::../newguide/introduction.adoc[]\<newline>''"
proof -
  let ?p = "example_pages @ [''newguide'', ''introduction.adoc'']"
  let ?x = "[''newguide'', ''introduction.adoc'']"
  let ?a = "''referenceguide/installation-alias.adoc''"
  have 1: "relative_to ?p (PAGES_DIR example_cwd) = Some ?x" by code_simp
  have 2: "resolve_alias ''referenceguide/referenceguide.adoc'' (rel_path_str ?x) = (?a, Some ?a)"
    by code_simp
  have 3: "get_title_and_anchor
        (create_alias_file example_cwd ?a (rel_path_str ?x) (files example_state)) ?p False
          = (''Untitled'', [])"
    by code_simp
  have 4: "lower ''Untitled'' = ''untitled''" by code_simp
  then have 5: "''Untitled'' = [] \<or> lower ''Untitled'' = ''untitled''" by simp
  have 6: "alias_content (rel_path_str ?x)
             (relpath (joinpath (PAGES_DIR example_cwd) (rel_path_str ?x))
                (parent (joinpath (PAGES_DIR example_cwd) ?a)))
           = '':page-alias: newguide/introduction.adoc\<newline>include::../newguide/introduction.adoc[]\<newline>''"
    by code_simp
  from alias_written_before_skip[OF 1 2 3 5, of 0 2] 1 2 3 4 6
  show ?thesis by simp
qed

lemma alias_sections_map:
  "alias_sections fs t lvl incs [] =
     map (\<lambda>inc. nav_entry (min (lvl + 1) MAX_NAV_DEPTH) t
                  (fst (get_title_and_anchor fs inc False))
                  (snd (get_title_and_anchor fs inc False)))
         (filter (\<lambda>inc. \<not> untitled (fst (get_title_and_anchor fs inc False))) incs)"
proof (induction incs)
  case Nil
  then show ?case by simp
next
  case (Cons inc incs)
  obtain x1 x2 where g: "get_title_and_anchor fs inc False = (x1, x2)"
    by (cases "get_title_and_anchor fs inc False") auto
  show ?case
    using Cons alias_sections_append[of fs t lvl incs "[nav_entry (min (lvl + 1) MAX_NAV_DEPTH) t x1 x2]"]
    by (simp add: g untitled_def add_entry_def)
qed

lemma alias_lookup_rule:
  "alias_lookup table keys xs = (t, Some a) \<Longrightarrow>
     t = a \<and> (\<exists>key rules. (key, rules) \<in> set table \<and> (xs, a) \<in> set rules)"
  by (induction keys) (auto split: option.splits dest: map_of_SomeD)

lemma resolve_alias_rule:
  assumes "resolve_alias mk xs = (t, Some a)"
  shows "t = a \<and> t \<noteq> xs"
proof -
  from assms have "alias_lookup ALIAS_MAP [mk, path_name mk] xs = (t, Some a)"
    unfolding resolve_alias_def resolve_alias_in_def Let_def .
  from alias_lookup_rule[OF this] obtain key rules where
    "t = a" "(key, rules) \<in> set ALIAS_MAP" "(xs, a) \<in> set rules" by blast
  then show ?thesis using alias_rules[of key rules xs a] by auto
qed

lemma process_page_aliased_aggregator:
  assumes "relative_to p (PAGES_DIR cwd) = Some x"
    and "resolve_alias mk (rel_path_str x) = (t, Some a)"
    and "fs1 = create_alias_file cwd a (rel_path_str x) (files st)"
    and "get_title_and_anchor fs1 p False = (title, anchor)"
    and "\<not> untitled title"
    and "is_aggregator_page cwd fs1 p"
  shows "process_page (Suc n) cwd p mk lvl st =
           Some (st\<lparr>calls := calls st @ [(path_str p, mk)],
                    files := fs1,
                    nav_lines := nav_lines st @
                      nav_entry lvl t title anchor #
                      map (\<lambda>inc. nav_entry (min (lvl + 1) MAX_NAV_DEPTH) t
                                   (fst (get_title_and_anchor fs1 inc False))
                                   (snd (get_title_and_anchor fs1 inc False)))
                          (filter (\<lambda>inc. \<not> untitled (fst (get_title_and_anchor fs1 inc False)))
                                  (extract_include_files cwd fs1 p))\<rparr>)"
proof -
  have pf: "page_files cwd mk p (files st) = fs1"
    using assms(1,2,3) by (simp add: page_files_alias)
  have ch: "page_children cwd mk p (files st) = []"
    using assms(1,2) by (simp add: page_children_def Let_def)
  have en: "page_entries cwd mk p lvl (files st) =
              nav_entry lvl t title anchor #
              alias_sections fs1 t lvl (extract_include_files cwd fs1 p) []"
    using assms(1,2,4,5,6) pf by (simp add: page_entries_def Let_def)
  show ?thesis
    unfolding process_page_unfold ch en pf alias_sections_map by simp
qed

text \<open>
  Claim C1, as amended: for an aggregator page with an alias, \<^verbatim>\<open>process_page\<close> adds
  the entry of the page and then one entry for each included file whose page-mode title
  is neither empty nor \<^verbatim>\<open>untitled\<close>, at the smaller of the current level plus one and
  the maximal depth, with the title and anchor of that file and the alias page as
  target; it calls itself for none of the included files, and the alias target differs
  from the path of the shared page.  The claim as stated fails for an included file
  without a title, which gets no entry, and at the maximal depth, where the entries of
  the included files stay at that depth.
\<close>

theorem aliased_aggregator_entries:
  assumes "relative_to p (PAGES_DIR cwd) = Some x"
    and "resolve_alias mk (rel_path_str x) = (t, Some a)"
    and "fs1 = create_alias_file cwd a (rel_path_str x) (files st)"
    and "get_title_and_anchor fs1 p False = (title, anchor)"
    and "\<not> untitled title"
    and "is_aggregator_page cwd fs1 p"
  shows "process_page (Suc n) cwd p mk lvl st =
           Some (st\<lparr>calls := calls st @ [(path_str p, mk)],
                    files := fs1,
                    nav_lines := nav_lines st @
                      nav_entry lvl t title anchor #
                      map (\<lambda>inc. nav_entry (min (lvl + 1) MAX_NAV_DEPTH) t
                                   (fst (get_title_and_anchor fs1 inc False))
                                   (snd (get_title_and_anchor fs1 inc False)))
                          (filter (\<lambda>inc. \<not> untitled (fst (get_title_and_anchor fs1 inc False)))
                                  (extract_include_files cwd fs1 p))\<rparr>)
       \<and> t = a \<and> t \<noteq> rel_path_str x"
  using process_page_aliased_aggregator[OF assms, of n lvl] resolve_alias_rule[OF assms(2)]
  by (auto simp del: process_page.simps)

lemma example_book:
  "relative_to (example_pages @ [''perfdmf'', ''book.adoc'']) (PAGES_DIR example_cwd)
     = Some [''perfdmf'', ''book.adoc'']"
  "resolve_alias ''referenceguide/referenceguide.adoc'' (rel_path_str [''perfdmf'', ''book.adoc''])
     = (''referenceguide/taudb-alias.adoc'', Some ''referenceguide/taudb-alias.adoc'')"
  "get_title_and_anchor
     (create_alias_file example_cwd ''referenceguide/taudb-alias.adoc''
        (rel_path_str [''perfdmf'', ''book.adoc'']) (files example_state))
     (example_pages @ [''perfdmf'', ''book.adoc'']) False = (''TAUdb'', ''taudb'')"
  "is_aggregator_page example_cwd
     (create_alias_file example_cwd ''referenceguide/taudb-alias.adoc''
        (rel_path_str [''perfdmf'', ''book.adoc'']) (files example_state))
     (example_pages @ [''perfdmf'', ''book.adoc''])"
  "extract_include_files example_cwd
     (create_alias_file example_cwd ''referenceguide/taudb-alias.adoc''
        (rel_path_str [''perfdmf'', ''book.adoc'']) (files example_state))
     (example_pages @ [''perfdmf'', ''book.adoc''])
     = [example_pages @ [''perfdmf'', ''a.adoc''], example_pages @ [''perfdmf'', ''b.adoc'']]"
  "get_title_and_anchor
     (create_alias_file example_cwd ''referenceguide/taudb-alias.adoc''
        (rel_path_str [''perfdmf'', ''book.adoc'']) (files example_state))
     (example_pages @ [''perfdmf'', ''a.adoc'']) False = (''Chapter A'', ''aa'')"
  "get_title_and_anchor
     (create_alias_file example_cwd ''referenceguide/taudb-alias.adoc''
        (rel_path_str [''perfdmf'', ''book.adoc'']) (files example_state))
     (example_pages @ [''perfdmf'', ''b.adoc'']) False = (''Untitled'', [])"
  by code_simp+

lemma example_titles:
  "\<not> untitled ''TAUdb''" "\<not> untitled ''Chapter A''" "untitled ''Untitled''"
  unfolding untitled_def by code_simp+

lemma example_entries:
  "nav_entry 2 ''referenceguide/taudb-alias.adoc'' ''TAUdb'' ''taudb''
     = ''** xref:referenceguide/taudb-alias.adoc#taudb[TAUdb]''"
  "nav_entry 3 ''referenceguide/taudb-alias.adoc'' ''Chapter A'' ''aa''
     = ''*** xref:referenceguide/taudb-alias.adoc#aa[Chapter A]''"
  "nav_entry 4 ''referenceguide/taudb-alias.adoc'' ''TAUdb'' ''taudb''
     = ''**** xref:referenceguide/taudb-alias.adoc#taudb[TAUdb]''"
  "nav_entry 4 ''referenceguide/taudb-alias.adoc'' ''Chapter A'' ''aa''
     = ''**** xref:referenceguide/taudb-alias.adoc#aa[Chapter A]''"
  by code_simp+

theorem aliased_aggregator_entries_counterexample:
  "length (extract_include_files example_cwd
     (create_alias_file example_cwd ''referenceguide/taudb-alias.adoc''
        (rel_path_str [''perfdmf'', ''book.adoc'']) (files example_state))
     (example_pages @ [''perfdmf'', ''book.adoc''])) = 2
   \<and> map_option nav_lines
        (process_page (Suc 0) example_cwd (example_pages @ [''perfdmf'', ''book.adoc''])
           ''referenceguide/referenceguide.adoc'' 2 example_state)
       = Some [''** xref:referenceguide/taudb-alias.adoc#taudb[TAUdb]'',
               ''*** xref:referenceguide/taudb-alias.adoc#aa[Chapter A]'']
   \<and> map_option nav_lines
        (process_page (Suc 0) example_cwd (example_pages @ [''perfdmf'', ''book.adoc''])
           ''referenceguide/referenceguide.adoc'' 4 example_state)
       = Some [''**** xref:referenceguide/taudb-alias.adoc#taudb[TAUdb]'',
               ''**** xref:referenceguide/taudb-alias.adoc#aa[Chapter A]'']"
proof -
  note h = process_page_aliased_aggregator[OF example_book(1) example_book(2) refl
             example_book(3) example_titles(1) example_book(4), of 0]
  have n: "nav_lines example_state = []" by (simp add: example_state_def)
  show ?thesis
    unfolding h[of 2] h[of 4] example_book(5)
    by (simp add: n example_book(6,7) example_titles example_entries MAX_NAV_DEPTH_def)
qed

theorem aliased_aggregator_entries_witness:
  "relative_to (example_pages @ [''perfdmf'', ''book.adoc'']) (PAGES_DIR example_cwd)
     = Some [''perfdmf'', ''book.adoc'']
   \<and> resolve_alias ''referenceguide/referenceguide.adoc'' (rel_path_str [''perfdmf'', ''book.adoc''])
     = (''referenceguide/taudb-alias.adoc'', Some ''referenceguide/taudb-alias.adoc'')
   \<and> get_title_and_anchor
     (create_alias_file example_cwd ''referenceguide/taudb-alias.adoc''
        (rel_path_str [''perfdmf'', ''book.adoc'']) (files example_state))
     (example_pages @ [''perfdmf'', ''book.adoc'']) False = (''TAUdb'', ''taudb'')
   \<and> \<not> untitled ''TAUdb''
   \<and> is_aggregator_page example_cwd
     (create_alias_file example_cwd ''referenceguide/taudb-alias.adoc''
        (rel_path_str [''perfdmf'', ''book.adoc'']) (files example_state))
     (example_pages @ [''perfdmf'', ''book.adoc''])
   \<and> process_page (Suc 0) example_cwd (example_pages @ [''perfdmf'', ''book.adoc''])
        ''referenceguide/referenceguide.adoc'' 2 example_state
       = Some (example_state\<lparr>
            calls := [(path_str (example_pages @ [''perfdmf'', ''book.adoc'']),
                       ''referenceguide/referenceguide.adoc'')],
            files := create_alias_file example_cwd ''referenceguide/taudb-alias.adoc''
                       (rel_path_str [''perfdmf'', ''book.adoc'']) (files example_state),
            nav_lines := [''** xref:referenceguide/taudb-alias.adoc#taudb[TAUdb]'',
                          ''*** xref:referenceguide/taudb-alias.adoc#aa[Chapter A]'']\<rparr>)
   \<and> ''referenceguide/taudb-alias.adoc'' \<noteq> rel_path_str [''perfdmf'', ''book.adoc'']"
proof -
  note h = aliased_aggregator_entries[OF example_book(1) example_book(2) refl
             example_book(3) example_titles(1) example_book(4), of 0 2]
  have n: "nav_lines example_state = []" "calls example_state = []"
    by (simp_all add: example_state_def)
  from h have "process_page (Suc 0) example_cwd (example_pages @ [''perfdmf'', ''book.adoc''])
        ''referenceguide/referenceguide.adoc'' 2 example_state
       = Some (example_state\<lparr>
            calls := [(path_str (example_pages @ [''perfdmf'', ''book.adoc'']),
                       ''referenceguide/referenceguide.adoc'')],
            files := create_alias_file example_cwd ''referenceguide/taudb-alias.adoc''
                       (rel_path_str [''perfdmf'', ''book.adoc'']) (files example_state),
            nav_lines := [''** xref:referenceguide/taudb-alias.adoc#taudb[TAUdb]'',
                          ''*** xref:referenceguide/taudb-alias.adoc#aa[Chapter A]'']\<rparr>)"
    unfolding example_book(5)
    by (simp add: n example_book(6,7) example_titles example_entries MAX_NAV_DEPTH_def
          del: process_page.simps)
  moreover from h have "''referenceguide/taudb-alias.adoc'' \<noteq> rel_path_str [''perfdmf'', ''book.adoc'']"
    by blast
  ultimately show ?thesis
    using example_book(1,2,3,4) example_titles(1) by blast
qed

section \<open>Runs\<close>

subsection \<open>Depth of entries\<close>

lemma entry_depth_nav_entry:
  "entry_depth (nav_entry level t title a) = nat (max 1 (min level MAX_NAV_DEPTH))"
proof -
  have tw: "takeWhile (\<lambda>c. c = CHR ''*'') (replicate k CHR ''*'' @ CHR '' '' # rest)
              = replicate k CHR ''*''" for k rest
    by (induction k) simp_all
  show ?thesis
    by (simp add: entry_depth_def nav_entry_def Let_def tw del: replicate.simps)
qed

lemma entry_ok_nav_entry: "entry_ok (nav_entry level t title a)"
  unfolding entry_ok_def entry_depth_nav_entry MAX_NAV_DEPTH_def by linarith

lemma section_entries_map:
  "section_entries lvl t title anchor secs [] =
     map (\<lambda>(l, a, ti). nav_entry (lvl + (int l - 2)) t ti a)
         (filter (\<lambda>(l, a, ti). \<not> (a = anchor \<or> lower (strip ti) = lower (strip title))
                               \<and> lvl + (int l - 2) \<le> MAX_NAV_DEPTH) secs)"
proof (induction secs)
  case Nil
  then show ?case by simp
next
  case (Cons s secs)
  obtain l a ti where s: "s = (l, a, ti)" by (cases s) auto
  show ?case
    using Cons section_entries_append[of lvl t title anchor secs "[nav_entry (lvl + (int l - 2)) t ti a]"]
    by (simp add: s add_entry_def Let_def)
qed

lemma page_entries_ok: "\<forall>l\<in>set (page_entries cwd mk p lvl fs). entry_ok l"
  by (auto simp: page_entries_def Let_def alias_sections_map section_entries_map entry_ok_nav_entry
        split: option.splits prod.splits)

lemma nav_extends_refl: "nav_extends st st"
  by (simp add: nav_extends_def)

lemma nav_extends_trans: "nav_extends a b \<Longrightarrow> nav_extends b c \<Longrightarrow> nav_extends a c"
  by (auto simp: nav_extends_def)

lemma nav_extends_visited: "nav_extends (st\<lparr>visited := v\<rparr>) st' \<Longrightarrow> nav_extends st st'"
  by (simp add: nav_extends_def)

lemma includes_nav_extends:
  assumes "\<And>p st st'. process_page n cwd p mk lvl st = Some st' \<Longrightarrow> nav_extends st st'"
  shows "process_includes n cwd mk lvl incs st = Some st' \<Longrightarrow> nav_extends st st'"
proof (induction incs arbitrary: st)
  case Nil
  then show ?case by (simp add: nav_extends_refl)
next
  case (Cons inc incs)
  show ?case
  proof (cases "(path_str inc, mk) \<in> visited st")
    case True
    then show ?thesis using Cons by (simp add: Let_def)
  next
    case False
    with Cons.prems obtain st2 where
      p: "process_page n cwd inc mk lvl (st\<lparr>visited := insert (path_str inc, mk) (visited st)\<rparr>) = Some st2"
      and r: "process_includes n cwd mk lvl incs st2 = Some st'"
      by (auto simp: Let_def split: option.splits)
    from assms[OF p] have "nav_extends st st2" by (rule nav_extends_visited)
    with Cons.IH[OF r] show ?thesis by (rule nav_extends_trans[rotated])
  qed
qed

lemma page_nav_extends:
  "process_page n cwd p mk lvl st = Some st' \<Longrightarrow> nav_extends st st'"
proof (induction n arbitrary: p lvl st st')
  case 0
  then show ?case by simp
next
  case (Suc n)
  let ?st1 = "st\<lparr>calls := calls st @ [(path_str p, mk)],
                 files := page_files cwd mk p (files st),
                 nav_lines := nav_lines st @ page_entries cwd mk p lvl (files st)\<rparr>"
  have 1: "nav_extends st ?st1"
    using page_entries_ok[of cwd mk p lvl "files st"]
    by (simp add: nav_extends_def list_all_iff)
  from Suc.prems have "process_includes n cwd mk (min (lvl + 1) MAX_NAV_DEPTH)
                          (page_children cwd mk p (files st)) ?st1 = Some st'"
    by (simp only: process_page_unfold)
  then have "nav_extends ?st1 st'"
    using Suc.IH by (rule includes_nav_extends[rotated])
  with 1 show ?case by (rule nav_extends_trans)
qed

lemma includes_nav_extends':
  assumes "process_includes n cwd mk lvl incs st = Some st'"
  shows "nav_extends st st'"
  using page_nav_extends assms by (rule includes_nav_extends)

lemma nav_extends_lines:
  assumes "nav_extends st st'" and "\<forall>l\<in>set (nav_lines st). l = [] \<or> entry_ok l"
  shows "\<forall>l\<in>set (nav_lines st'). l = [] \<or> entry_ok l"
  using assms by (auto simp: nav_extends_def list_all_iff)

lemma book_line_ok:
  "entry_ok (''* xref:'' @ rest)"
  by (simp add: entry_ok_def entry_depth_def MAX_NAV_DEPTH_def)

lemma master_loop_lines:
  assumes "master_loop fuel cwd ms st = Some (Inr st')"
    and "\<forall>l\<in>set (nav_lines st). l = [] \<or> entry_ok l"
  shows "\<forall>l\<in>set (nav_lines st'). l = [] \<or> entry_ok l"
  using assms
proof (induction ms arbitrary: st)
  case Nil
  then show ?case by simp
next
  case (Cons m ms)
  let ?mp = "joinpath (PAGES_DIR cwd) m"
  show ?case
  proof (cases "path_exists (files st) ?mp")
    case False
    then show ?thesis using Cons by (simp add: Let_def)
  next
    case True
    obtain bt ba where g: "get_title_and_anchor (files st) ?mp True = (bt, ba)"
      by (cases "get_title_and_anchor (files st) ?mp True") auto
    from Cons.prems(1) True g obtain x where x: "relative_to ?mp (PAGES_DIR cwd) = Some x"
      by (cases "relative_to ?mp (PAGES_DIR cwd)") (auto simp: Let_def)
    let ?line = "if ba \<noteq> [] then ''* xref:'' @ rel_path_str x @ ''#'' @ ba @ ''['' @ bt @ '']''
                 else ''* xref:'' @ rel_path_str x @ ''['' @ bt @ '']''"
    let ?st1 = "st\<lparr>nav_lines := nav_lines st @ [?line]\<rparr>"
    from Cons.prems(1) True g x obtain st2 where
      i: "process_includes fuel cwd (rel_path_str x) 2
            (extract_include_files cwd (files st) ?mp) ?st1 = Some st2"
      and r: "master_loop fuel cwd ms
                (if m \<noteq> last MASTER_FILES then st2\<lparr>nav_lines := nav_lines st2 @ ['''']\<rparr> else st2)
              = Some (Inr st')"
      by (auto simp: Let_def split: option.splits)
    have "entry_ok ?line" using book_line_ok by simp
    then have 1: "\<forall>l\<in>set (nav_lines ?st1). l = [] \<or> entry_ok l"
      using Cons.prems(2) by auto
    have 2: "\<forall>l\<in>set (nav_lines st2). l = [] \<or> entry_ok l"
      using includes_nav_extends'[OF i] 1 by (rule nav_extends_lines)
    then have "\<forall>l\<in>set (nav_lines (if m \<noteq> last MASTER_FILES
                 then st2\<lparr>nav_lines := nav_lines st2 @ ['''']\<rparr> else st2)). l = [] \<or> entry_ok l"
      by auto
    with Cons.IH[OF r] show ?thesis by blast
  qed
qed

lemma main_lines:
  assumes "main fuel cwd fs = Some (Inr st)"
  shows "\<forall>l\<in>set (nav_lines st). l = [] \<or> entry_ok l"
proof -
  from assms obtain st0 where
    m: "master_loop fuel cwd MASTER_FILES \<lparr>nav_lines = [], visited = {}, files = fs, calls = []\<rparr>
          = Some (Inr st0)"
    and n: "nav_lines st = nav_lines st0"
    by (auto simp: main_def Let_def split: option.splits sum.splits)
  from master_loop_lines[OF m] n show ?thesis by simp
qed

text \<open>
  Claim C5: every line that a run appends to the navigation file, other than the empty
  separator lines between the books, has between one and \<open>MAX_NAV_DEPTH\<close> leading
  asterisks, and so has every line that one call of \<^verbatim>\<open>process_page\<close> appends;
  \<^verbatim>\<open>add_entry\<close> clamps its level into this range.  A section heading of a page whose
  level \<open>current_level + (level - 2)\<close> exceeds \<open>MAX_NAV_DEPTH\<close> gets no entry at all:
  the section entries are those of the headings that pass the filter, each at its
  computed level.
\<close>

theorem nav_depth_bounds:
  "(main fuel cwd fs = Some (Inr st) \<longrightarrow>
      (\<forall>l\<in>set (nav_lines st). l = [] \<or> (1 \<le> entry_depth l \<and> int (entry_depth l) \<le> MAX_NAV_DEPTH)))
   \<and> (process_page n cwd p mk lvl st0 = Some st1 \<longrightarrow>
      (\<exists>new. nav_lines st1 = nav_lines st0 @ new \<and>
         (\<forall>l\<in>set new. 1 \<le> entry_depth l \<and> int (entry_depth l) \<le> MAX_NAV_DEPTH)))
   \<and> entry_depth (nav_entry level t ti a) = nat (max 1 (min level MAX_NAV_DEPTH))
   \<and> section_entries lvl t title anchor secs nav =
       nav @ map (\<lambda>(l, a, ti). nav_entry (lvl + (int l - 2)) t ti a)
               (filter (\<lambda>(l, a, ti). \<not> (a = anchor \<or> lower (strip ti) = lower (strip title))
                                     \<and> lvl + (int l - 2) \<le> MAX_NAV_DEPTH) secs)"
proof (intro conjI impI)
  assume "main fuel cwd fs = Some (Inr st)"
  from main_lines[OF this]
  show "\<forall>l\<in>set (nav_lines st). l = [] \<or> (1 \<le> entry_depth l \<and> int (entry_depth l) \<le> MAX_NAV_DEPTH)"
    by (simp add: entry_ok_def)
next
  assume "process_page n cwd p mk lvl st0 = Some st1"
  from page_nav_extends[OF this]
  show "\<exists>new. nav_lines st1 = nav_lines st0 @ new \<and>
         (\<forall>l\<in>set new. 1 \<le> entry_depth l \<and> int (entry_depth l) \<le> MAX_NAV_DEPTH)"
    by (simp add: nav_extends_def list_all_iff entry_ok_def)
next
  show "entry_depth (nav_entry level t ti a) = nat (max 1 (min level MAX_NAV_DEPTH))"
    by (rule entry_depth_nav_entry)
next
  show "section_entries lvl t title anchor secs nav =
       nav @ map (\<lambda>(l, a, ti). nav_entry (lvl + (int l - 2)) t ti a)
               (filter (\<lambda>(l, a, ti). \<not> (a = anchor \<or> lower (strip ti) = lower (strip title))
                                     \<and> lvl + (int l - 2) \<le> MAX_NAV_DEPTH) secs)"
    using section_entries_append[of lvl t title anchor secs nav] section_entries_map[of lvl t title anchor secs]
    by simp
qed

subsection \<open>Files that can exist during a run\<close>

lemma fold_resolve_no_dotdot:
  "''..'' \<notin> set acc \<Longrightarrow>
     ''..'' \<notin> set (fold (\<lambda>c acc. if c = ''..'' then tl acc else c # acc) p acc)"
proof (induction p arbitrary: acc)
  case Nil
  then show ?case by simp
next
  case (Cons c p)
  have "''..'' \<notin> set (tl acc)" using Cons.prems by (cases acc) auto
  then show ?case using Cons by simp
qed

lemma resolve_idem: "resolve (resolve p) = resolve p"
proof -
  have "''..'' \<notin> set (resolve p)"
    using fold_resolve_no_dotdot[of "[]" p] by (simp add: resolve_def)
  from resolve_append[OF this, of "[]"] show ?thesis by (simp add: resolve_def)
qed

lemma write_text_keys: "fst ` set (write_text fs p c) \<subseteq> insert (resolve p) (fst ` set fs)"
  by (auto simp: write_text_def)

lemma alias_target_listed:
  assumes "resolve_alias mk xs = (t, Some a)"
  shows "resolve (joinpath (PAGES_DIR cwd) a) \<in> set (alias_paths cwd)"
proof -
  from assms have "alias_lookup ALIAS_MAP [mk, path_name mk] xs = (t, Some a)"
    unfolding resolve_alias_def resolve_alias_in_def Let_def .
  from alias_lookup_rule[OF this] obtain key rules where
    "(key, rules) \<in> set ALIAS_MAP" "(xs, a) \<in> set rules" by blast
  then have "a \<in> set (concat (map (\<lambda>e. map snd (snd e)) ALIAS_MAP))" by force
  then show ?thesis unfolding alias_paths_def by simp
qed

lemma include_targets_exist:
  "inc \<in> set (include_targets cwd fs p lines) \<Longrightarrow> inc \<in> fst ` set fs"
proof (induction lines)
  case Nil
  then show ?case by simp
next
  case (Cons line lines)
  show ?case
  proof (cases "include_search line")
    case None
    then show ?thesis using Cons by simp
  next
    case (Some g)
    let ?inc = "resolve (joinpath (parent p) (strip g))"
    show ?thesis
    proof (cases "inc \<in> set (include_targets cwd fs p lines)")
      case True
      then show ?thesis using Cons by simp
    next
      case False
      with Cons.prems Some have e: "inc = ?inc" and ex: "path_exists fs ?inc"
        by (auto simp: Let_def split: if_splits)
      from ex have "map_of fs ?inc \<noteq> None"
        by (simp add: path_exists_def read_text_def resolve_idem)
      then show ?thesis using e by (auto simp: map_of_eq_None_iff)
    qed
  qed
qed

lemma page_files_cases:
  "page_files cwd mk p fs = fs \<or>
   (\<exists>x t a. resolve_alias mk (rel_path_str x) = (t, Some a) \<and>
      page_files cwd mk p fs = create_alias_file cwd a (rel_path_str x) fs)"
  unfolding page_files_def
  by (cases "relative_to p (PAGES_DIR cwd)"; simp split: option.splits) (metis prod.collapse)

lemma create_alias_file_keys:
  "fst ` set (create_alias_file cwd a x fs)
     \<subseteq> insert (resolve (joinpath (PAGES_DIR cwd) a)) (fst ` set fs)"
  unfolding create_alias_file_def Let_def by (rule write_text_keys)

lemma subset_insert_union:
  assumes "r \<in> A" and "X \<subseteq> insert r F"
  shows "X \<subseteq> F \<union> A"
  using assms by blast

lemma page_files_keys:
  "fst ` set (page_files cwd mk p fs) \<subseteq> fst ` set fs \<union> set (alias_paths cwd)"
proof -
  from page_files_cases[of cwd mk p fs] show ?thesis
  proof
    assume e: "page_files cwd mk p fs = fs"
    have "fst ` set (page_files cwd mk p fs) = fst ` set fs" by (simp only: e)
    then show ?thesis by (simp only: Un_upper1)
  next
    assume "\<exists>x t a. resolve_alias mk (rel_path_str x) = (t, Some a) \<and>
      page_files cwd mk p fs = create_alias_file cwd a (rel_path_str x) fs"
    then obtain x t a where ra: "resolve_alias mk (rel_path_str x) = (t, Some a)"
      and pf: "page_files cwd mk p fs = create_alias_file cwd a (rel_path_str x) fs"
      by (elim exE conjE)
    have "resolve (joinpath (PAGES_DIR cwd) a) \<in> set (alias_paths cwd)"
      using ra by (rule alias_target_listed)
    moreover have "fst ` set (page_files cwd mk p fs)
        \<subseteq> insert (resolve (joinpath (PAGES_DIR cwd) a)) (fst ` set fs)"
      unfolding pf by (rule create_alias_file_keys)
    ultimately show ?thesis by (rule subset_insert_union)
  qed
qed

lemma page_children_exist:
  "inc \<in> set (page_children cwd mk p fs) \<Longrightarrow> inc \<in> fst ` set (page_files cwd mk p fs)"
  by (auto simp: page_children_def extract_include_files_def Let_def
        split: option.splits if_splits dest: include_targets_exist)

subsection \<open>The measure of the traversal\<close>

lemma remaining_insert:
  assumes "finite U" and "p \<in> U" and "(path_str p, mk) \<notin> V"
  shows "remaining U mk (insert (path_str p, mk) V) < remaining U mk V"
proof -
  let ?K = "(\<lambda>p. (path_str p, mk)) ` U"
  have "?K - insert (path_str p, mk) V \<subset> ?K - V" using assms(2,3) by auto
  moreover have "finite (?K - V)" using assms(1) by simp
  ultimately show ?thesis unfolding remaining_def by (rule psubset_card_mono[rotated])
qed

lemma remaining_mono:
  assumes "finite U" and "V \<subseteq> V'"
  shows "remaining U mk V' \<le> remaining U mk V"
  unfolding remaining_def using assms by (intro card_mono) auto

lemma remaining_le: "finite U \<Longrightarrow> remaining U mk V \<le> card U"
  unfolding remaining_def
  by (meson card_image_le card_mono Diff_subset finite_imageI le_trans)

subsection \<open>The invariant of a run\<close>

lemma run_inv_visited:
  assumes "run_inv U st"
  shows "run_inv U (st\<lparr>visited := insert k (visited st)\<rparr>)"
  using assms unfolding run_inv_def by (simp add: subset_insertI2)

lemma run_inv_nav: "run_inv U (st\<lparr>nav_lines := x\<rparr>) = run_inv U st"
  unfolding run_inv_def by simp

lemma run_inv_page:
  assumes "run_inv U st" and "k \<in> visited st" and "k \<notin> set (calls st)"
    and "fst ` set fs' \<subseteq> U"
  shows "run_inv U (st\<lparr>calls := calls st @ [k], files := fs', nav_lines := nl\<rparr>)"
  using assms unfolding run_inv_def by simp

lemma run_inv_files: "run_inv U st \<Longrightarrow> fst ` set (files st) \<subseteq> U"
  unfolding run_inv_def by simp

lemma run_inv_calls: "run_inv U st \<Longrightarrow> k \<notin> visited st \<Longrightarrow> k \<notin> set (calls st)"
  unfolding run_inv_def by (meson subsetD)

subsection \<open>Termination of the traversal\<close>

lemma includes_total:
  assumes fin: "finite U"
    and page: "\<And>p st. \<lbrakk>run_inv U st; (path_str p, mk) \<in> visited st;
                 (path_str p, mk) \<notin> set (calls st); remaining U mk (visited st) < n\<rbrakk>
               \<Longrightarrow> \<exists>st'. process_page n cwd p mk lvl st = Some st' \<and> run_inv U st'
                        \<and> visited st \<subseteq> visited st'"
  shows "\<lbrakk>run_inv U st; set incs \<subseteq> U; remaining U mk (visited st) \<le> n\<rbrakk>
         \<Longrightarrow> \<exists>st'. process_includes n cwd mk lvl incs st = Some st' \<and> run_inv U st'
                  \<and> visited st \<subseteq> visited st'"
proof (induction incs arbitrary: st)
  case Nil
  then show ?case by simp
next
  case (Cons inc incs)
  let ?k = "(path_str inc, mk)"
  from Cons.prems(2) have incU: "inc \<in> U" and incsU: "set incs \<subseteq> U" by simp_all
  show ?case
  proof (cases "?k \<in> visited st")
    case True
    from Cons.IH[OF Cons.prems(1) incsU Cons.prems(3)] True show ?thesis
      by (simp add: Let_def)
  next
    case False
    let ?st2 = "st\<lparr>visited := insert ?k (visited st)\<rparr>"
    have i2: "run_inv U ?st2" using Cons.prems(1) by (rule run_inv_visited)
    have v2: "?k \<in> visited ?st2" by simp
    have c2: "?k \<notin> set (calls ?st2)" using run_inv_calls[OF Cons.prems(1) False] by simp
    have "remaining U mk (visited ?st2) < remaining U mk (visited st)"
      using remaining_insert[OF fin incU False] by simp
    with Cons.prems(3) have r2: "remaining U mk (visited ?st2) < n" by simp
    from page[OF i2 v2 c2 r2] obtain st3 where
      p3: "process_page n cwd inc mk lvl ?st2 = Some st3" and i3: "run_inv U st3"
      and v3: "visited ?st2 \<subseteq> visited st3" by (elim exE conjE)
    from v3 have v3': "visited st \<subseteq> visited st3" by simp
    have "remaining U mk (visited st3) \<le> remaining U mk (visited st)"
      using fin v3' by (rule remaining_mono)
    with Cons.prems(3) have r3: "remaining U mk (visited st3) \<le> n" by simp
    from Cons.IH[OF i3 incsU r3] obtain st' where
      r: "process_includes n cwd mk lvl incs st3 = Some st'" and i': "run_inv U st'"
      and v': "visited st3 \<subseteq> visited st'" by (elim exE conjE)
    have "process_includes n cwd mk lvl (inc # incs) st = Some st'"
      using False p3 r by (simp add: Let_def)
    moreover have "visited st \<subseteq> visited st'" using v3' v' by (rule subset_trans)
    ultimately show ?thesis using i' by (intro exI conjI)
  qed
qed

lemma page_total:
  assumes fin: "finite U" and al: "set (alias_paths cwd) \<subseteq> U"
  shows "\<lbrakk>run_inv U st; (path_str p, mk) \<in> visited st; (path_str p, mk) \<notin> set (calls st);
          remaining U mk (visited st) < n\<rbrakk>
         \<Longrightarrow> \<exists>st'. process_page n cwd p mk lvl st = Some st' \<and> run_inv U st'
                  \<and> visited st \<subseteq> visited st'"
proof (induction n arbitrary: p lvl st)
  case 0
  then show ?case by simp
next
  case (Suc n)
  let ?fs1 = "page_files cwd mk p (files st)"
  let ?st1 = "st\<lparr>calls := calls st @ [(path_str p, mk)],
                 files := ?fs1,
                 nav_lines := nav_lines st @ page_entries cwd mk p lvl (files st)\<rparr>"
  have f0: "fst ` set (files st) \<subseteq> U" using Suc.prems(1) by (rule run_inv_files)
  have "fst ` set ?fs1 \<subseteq> fst ` set (files st) \<union> set (alias_paths cwd)"
    by (rule page_files_keys)
  also have "\<dots> \<subseteq> U" using f0 al by (rule Un_least)
  finally have f1: "fst ` set ?fs1 \<subseteq> U" .
  have i1: "run_inv U ?st1" using Suc.prems(1,2,3) f1 by (rule run_inv_page)
  have ch: "set (page_children cwd mk p (files st)) \<subseteq> U"
  proof
    fix inc assume "inc \<in> set (page_children cwd mk p (files st))"
    then have "inc \<in> fst ` set ?fs1" by (rule page_children_exist)
    with f1 show "inc \<in> U" by (rule subsetD)
  qed
  have r1: "remaining U mk (visited ?st1) \<le> n" using Suc.prems(4) by simp
  have "\<exists>st'. process_includes n cwd mk (min (lvl + 1) MAX_NAV_DEPTH)
                 (page_children cwd mk p (files st)) ?st1 = Some st' \<and> run_inv U st'
               \<and> visited ?st1 \<subseteq> visited st'"
    using fin Suc.IH i1 ch r1 by (rule includes_total)
  then show ?case by (simp only: process_page_unfold) simp
qed

lemma includes_total':
  assumes "finite U" and "set (alias_paths cwd) \<subseteq> U" and "run_inv U st" and "set incs \<subseteq> U"
    and "remaining U mk (visited st) \<le> n"
  shows "\<exists>st'. process_includes n cwd mk lvl incs st = Some st' \<and> run_inv U st'
           \<and> visited st \<subseteq> visited st'"
  using assms(1) page_total[OF assms(1,2)] assms(3,4,5) by (rule includes_total)

lemma relative_to_join:
  "\<not> is_absolute m \<Longrightarrow> relative_to (joinpath base m) base = Some (path_parts m)"
  by (simp add: relative_to_def joinpath_def)

lemma extract_include_files_exist:
  "inc \<in> set (extract_include_files cwd fs p) \<Longrightarrow> inc \<in> fst ` set fs"
  unfolding extract_include_files_def by (rule include_targets_exist)

lemma master_loop_total:
  assumes fin: "finite U" and al: "set (alias_paths cwd) \<subseteq> U" and cu: "card U \<le> fuel"
  shows "\<lbrakk>\<forall>m\<in>set ms. \<not> is_absolute m; run_inv U st\<rbrakk>
         \<Longrightarrow> \<exists>st'. master_loop fuel cwd ms st = Some (Inr st') \<and> run_inv U st'"
proof (induction ms arbitrary: st)
  case Nil
  then show ?case by simp
next
  case (Cons m ms)
  let ?mp = "joinpath (PAGES_DIR cwd) m"
  from Cons.prems(1) have na: "\<not> is_absolute m" and rest: "\<forall>m\<in>set ms. \<not> is_absolute m"
    by simp_all
  show ?case
  proof (cases "path_exists (files st) ?mp")
    case False
    from Cons.IH[OF rest Cons.prems(2)] False show ?thesis by (simp add: Let_def)
  next
    case True
    obtain bt ba where g: "get_title_and_anchor (files st) ?mp True = (bt, ba)"
      by (cases "get_title_and_anchor (files st) ?mp True") auto
    have x: "relative_to ?mp (PAGES_DIR cwd) = Some (path_parts m)"
      using na by (rule relative_to_join)
    let ?mk = "rel_path_str (path_parts m)"
    let ?line = "if ba \<noteq> [] then ''* xref:'' @ ?mk @ ''#'' @ ba @ ''['' @ bt @ '']''
                 else ''* xref:'' @ ?mk @ ''['' @ bt @ '']''"
    let ?st1 = "st\<lparr>nav_lines := nav_lines st @ [?line]\<rparr>"
    let ?incs = "extract_include_files cwd (files st) ?mp"
    have i1: "run_inv U ?st1" using Cons.prems(2) by (simp only: run_inv_nav)
    have f0: "fst ` set (files st) \<subseteq> U" using Cons.prems(2) by (rule run_inv_files)
    have inU: "set ?incs \<subseteq> U"
    proof
      fix inc assume "inc \<in> set ?incs"
      then have "inc \<in> fst ` set (files st)" by (rule extract_include_files_exist)
      with f0 show "inc \<in> U" by (rule subsetD)
    qed
    have "remaining U ?mk (visited ?st1) \<le> card U" using fin by (rule remaining_le)
    with cu have r1: "remaining U ?mk (visited ?st1) \<le> fuel" by simp
    from includes_total'[OF fin al i1 inU r1, of 2] obtain st2 where
      p2: "process_includes fuel cwd ?mk 2 ?incs ?st1 = Some st2" and i2: "run_inv U st2"
      by (elim exE conjE)
    let ?st3 = "if m \<noteq> last MASTER_FILES then st2\<lparr>nav_lines := nav_lines st2 @ ['''']\<rparr> else st2"
    have i3: "run_inv U ?st3" using i2 by (simp add: run_inv_nav)
    from Cons.IH[OF rest i3] obtain st' where
      r: "master_loop fuel cwd ms ?st3 = Some (Inr st')" and i': "run_inv U st'"
      by (elim exE conjE)
    have "master_loop fuel cwd (m # ms) st = Some (Inr st')"
      using True g x p2 r by (simp add: Let_def)
    with i' show ?thesis by (intro exI conjI)
  qed
qed

lemma master_files_relative: "\<forall>m\<in>set MASTER_FILES. \<not> is_absolute m"
  by (simp add: MASTER_FILES_def is_absolute_def startswith_def)

lemma alias_paths_length: "length (alias_paths cwd) = 4"
  by (simp add: alias_paths_def ALIAS_MAP_def)

lemma main_total:
  assumes "length fs + 4 \<le> fuel"
  shows "\<exists>st. main fuel cwd fs = Some (Inr st) \<and> distinct (calls st)"
proof -
  let ?U = "fst ` set fs \<union> set (alias_paths cwd)"
  let ?st0 = "\<lparr>nav_lines = [], visited = {}, files = fs, calls = []\<rparr>"
  have fin: "finite ?U" by simp
  have al: "set (alias_paths cwd) \<subseteq> ?U" by (rule Un_upper2)
  have "card ?U \<le> card (fst ` set fs) + card (set (alias_paths cwd))" by (rule card_Un_le)
  also have "\<dots> \<le> length fs + length (alias_paths cwd)"
    by (meson add_mono card_image_le card_length List.finite_set le_trans)
  finally have cu: "card ?U \<le> fuel" using assms by (simp add: alias_paths_length)
  have i0: "run_inv ?U ?st0" unfolding run_inv_def by simp
  from master_loop_total[OF fin al cu master_files_relative i0] obtain st' where
    m: "master_loop fuel cwd MASTER_FILES ?st0 = Some (Inr st')" and i': "run_inv ?U st'"
    by (elim exE conjE)
  let ?st = "st'\<lparr>files := write_text (files st') (DEST_NAV_FILE cwd)
               (join [CHR 0x0A] (header @ nav_lines st') @ [CHR 0x0A])\<rparr>"
  have "main fuel cwd fs = Some (Inr ?st)" using m by (simp add: main_def Let_def)
  moreover have "distinct (calls ?st)" using i' unfolding run_inv_def by simp
  ultimately show ?thesis by (intro exI conjI)
qed

text \<open>
  Claim C6: on every file system the program returns, given fuel for the number of
  files plus the four alias stubs, so the recursion ends also where the includes form
  a cycle; and in the state it returns the calls of \<^verbatim>\<open>process_page\<close> are distinct:
  no pair of a resolved file and a master key is processed twice.
\<close>

theorem traversal_terminates_once:
  assumes "length fs + 4 \<le> fuel"
  shows "\<exists>st. main fuel cwd fs = Some (Inr st) \<and> distinct (calls st)"
  using assms by (rule main_total)

lemma loop_run:
  "map_option (map_sum id (\<lambda>st. (nav_lines st, calls st))) (main 6 [] loop_files)
     = Some (Inr ([''* xref:usersguide/usersguide.adoc#ug[UG]'',
                   ''** xref:usersguide/a.adoc#a[A]'', []],
                  [(''/src/modules/ROOT/pages/usersguide/a.adoc'', ''usersguide/usersguide.adoc'')]))"
  by code_simp

theorem traversal_terminates_once_witness:
  "length loop_files + 4 \<le> 6
   \<and> map_option (map_sum id calls) (main 6 [] loop_files)
       = Some (Inr [(''/src/modules/ROOT/pages/usersguide/a.adoc'', ''usersguide/usersguide.adoc'')])
   \<and> distinct [(''/src/modules/ROOT/pages/usersguide/a.adoc'', ''usersguide/usersguide.adoc'')]"
proof -
  have l: "length loop_files + 4 \<le> 6" by (simp add: loop_files_def)
  from traversal_terminates_once[OF l, of "[]"] obtain st where
    m: "main 6 [] loop_files = Some (Inr st)" and d: "distinct (calls st)"
    by (elim exE conjE)
  from loop_run m have c: "calls st
      = [(''/src/modules/ROOT/pages/usersguide/a.adoc'', ''usersguide/usersguide.adoc'')]"
    by simp
  from m c have "map_option (map_sum id calls) (main 6 [] loop_files)
       = Some (Inr [(''/src/modules/ROOT/pages/usersguide/a.adoc'', ''usersguide/usersguide.adoc'')])"
    by simp
  with l d c show ?thesis by simp
qed

lemma example_book_run:
  "process_page (Suc 0) example_cwd (example_pages @ [''perfdmf'', ''book.adoc''])
        ''referenceguide/referenceguide.adoc'' lvl example_state
     = Some (example_state\<lparr>
          calls := [(path_str (example_pages @ [''perfdmf'', ''book.adoc'']),
                     ''referenceguide/referenceguide.adoc'')],
          files := create_alias_file example_cwd ''referenceguide/taudb-alias.adoc''
                     (rel_path_str [''perfdmf'', ''book.adoc'']) (files example_state),
          nav_lines := [nav_entry lvl ''referenceguide/taudb-alias.adoc'' ''TAUdb'' ''taudb'',
                        nav_entry (min (lvl + 1) MAX_NAV_DEPTH) ''referenceguide/taudb-alias.adoc''
                          ''Chapter A'' ''aa'']\<rparr>)"
proof -
  note h = process_page_aliased_aggregator[OF example_book(1) example_book(2) refl
             example_book(3) example_titles(1) example_book(4), of 0 lvl]
  have n: "nav_lines example_state = []" "calls example_state = []"
    by (simp_all add: example_state_def)
  show ?thesis
    unfolding h example_book(5)
    by (simp add: n example_book(6,7) example_titles)
qed

theorem nav_depth_bounds_witness:
  "map_option (map_sum id nav_lines) (main 6 [] loop_files)
     = Some (Inr [''* xref:usersguide/usersguide.adoc#ug[UG]'',
                  ''** xref:usersguide/a.adoc#a[A]'', []])
   \<and> list_all (\<lambda>l. l = [] \<or> (1 \<le> entry_depth l \<and> int (entry_depth l) \<le> MAX_NAV_DEPTH))
        [''* xref:usersguide/usersguide.adoc#ug[UG]'', ''** xref:usersguide/a.adoc#a[A]'', []]
   \<and> (\<exists>st1. process_page (Suc 0) example_cwd (example_pages @ [''perfdmf'', ''book.adoc''])
              ''referenceguide/referenceguide.adoc'' 4 example_state = Some st1
      \<and> nav_lines st1 = [''**** xref:referenceguide/taudb-alias.adoc#taudb[TAUdb]'',
                         ''**** xref:referenceguide/taudb-alias.adoc#aa[Chapter A]'']
      \<and> list_all (\<lambda>l. 1 \<le> entry_depth l \<and> int (entry_depth l) \<le> MAX_NAV_DEPTH) (nav_lines st1))
   \<and> entry_depth (nav_entry 9 ''p.adoc'' ''B'' ''b'') = 4
   \<and> entry_depth (nav_entry 0 ''p.adoc'' ''B'' ''b'') = 1
   \<and> section_entries 4 ''p.adoc'' ''B'' ''b'' [(3, ''s'', ''S'')] [''x''] = [''x'']
   \<and> section_entries 3 ''p.adoc'' ''B'' ''b'' [(3, ''s'', ''S'')] [''x'']
       = [''x'', ''**** xref:p.adoc#s[S]'']"
proof -
  let ?pb = "example_pages @ [''perfdmf'', ''book.adoc'']"
  let ?L = "[''* xref:usersguide/usersguide.adoc#ug[UG]'', ''** xref:usersguide/a.adoc#a[A]'', []]"
  have "length loop_files + 4 \<le> 6" by (simp add: loop_files_def)
  from main_total[OF this, of "[]"] obtain st where
    m: "main 6 [] loop_files = Some (Inr st)" by (elim exE conjE)
  from loop_run m have ls: "nav_lines st = ?L" by simp
  from m ls have m': "map_option (map_sum id nav_lines) (main 6 [] loop_files) = Some (Inr ?L)"
    by simp
  obtain st1 where
    p: "process_page (Suc 0) example_cwd ?pb ''referenceguide/referenceguide.adoc'' 4 example_state
          = Some st1"
    and l1: "nav_lines st1 = [nav_entry 4 ''referenceguide/taudb-alias.adoc'' ''TAUdb'' ''taudb'',
                        nav_entry (min (4 + 1) MAX_NAV_DEPTH) ''referenceguide/taudb-alias.adoc''
                          ''Chapter A'' ''aa'']"
    using example_book_run[of 4] by simp
  have l1': "nav_lines st1 = [''**** xref:referenceguide/taudb-alias.adoc#taudb[TAUdb]'',
                         ''**** xref:referenceguide/taudb-alias.adoc#aa[Chapter A]'']"
    unfolding l1 by (simp add: MAX_NAV_DEPTH_def example_entries)
  note t = nav_depth_bounds[where fuel = 6 and cwd = "[]" and fs = loop_files and st = st]
  note u = nav_depth_bounds[where cwd = example_cwd and n = "Suc 0" and p = ?pb
             and mk = "''referenceguide/referenceguide.adoc''" and lvl = 4
             and ?st0.0 = example_state and ?st1.0 = st1]
  from t m have "list_all (\<lambda>l. l = [] \<or> (1 \<le> entry_depth l \<and> int (entry_depth l) \<le> MAX_NAV_DEPTH))
           (nav_lines st)"
    by (simp only: list_all_iff) blast
  then have 1: "list_all (\<lambda>l. l = [] \<or> (1 \<le> entry_depth l \<and> int (entry_depth l) \<le> MAX_NAV_DEPTH)) ?L"
    by (simp only: ls)
  from u p obtain new where
    n: "nav_lines st1 = nav_lines example_state @ new"
    and o: "\<forall>l\<in>set new. 1 \<le> entry_depth l \<and> int (entry_depth l) \<le> MAX_NAV_DEPTH"
    by blast
  from n have "new = nav_lines st1" by (simp add: example_state_def)
  with o have 2: "list_all (\<lambda>l. 1 \<le> entry_depth l \<and> int (entry_depth l) \<le> MAX_NAV_DEPTH) (nav_lines st1)"
    by (simp only: list_all_iff)
  have 3: "entry_depth (nav_entry 9 ''p.adoc'' ''B'' ''b'') = 4"
          "entry_depth (nav_entry 0 ''p.adoc'' ''B'' ''b'') = 1"
    by (simp_all add: entry_depth_nav_entry MAX_NAV_DEPTH_def)
  have 4: "section_entries 4 ''p.adoc'' ''B'' ''b'' [(3, ''s'', ''S'')] [''x''] = [''x'']"
          "section_entries 3 ''p.adoc'' ''B'' ''b'' [(3, ''s'', ''S'')] [''x'']
             = [''x'', ''**** xref:p.adoc#s[S]'']"
    by code_simp+
  from m' 1 p l1' 2 3 4 show ?thesis by blast
qed

end
